theory Spec2Isabelle
  imports Complex_Main "HOL-Library.Word" "HOL-Library.Log_Nat"
begin

section \<open>The LMT01 driver (lmt01.c, lmt01.h)\<close>

text \<open>
  The driver counts the pulses of an LMT01 temperature sensor with a timer that the
  application supplies through five function pointers, and converts a pulse count to
  degrees Celsius, by the sensor's equation or by interpolation in a table of 21 anchors.

  The embedding follows lmt01.c function by function. Three things that C leaves
  implicit are explicit here:
  \<^item> behaviour that C does not define (a read beyond the table, a call through a null
    pointer, a read of a variable never written) is a result of its own, \<open>Inl\<close> of a
    \<open>stuck\<close> value, never a number;
  \<^item> a call that does not return (the wait loop of \<open>lmt_get_pulse_count\<close>) has the
    value \<open>None\<close>;
  \<^item> the arithmetic on \<open>double\<close> and the narrowing to \<open>float\<close> round as IEEE 754
    binary64 and binary32 do (round to nearest, ties to even).
\<close>

subsection \<open>Machine integers and outcomes\<close>

type_synonym u32 = "32 word"

text \<open>An \<open>int16_t\<close> is a 16-bit word read in two's complement (\<open>sint\<close>).\<close>

type_synonym i16 = "16 word"

datatype stuck =
    Out_of_bounds_read  \<comment> \<open>an element of \<open>lut\<close> beyond its 21 rows is read\<close>
  | Null_pointer        \<comment> \<open>a null pointer is dereferenced or called\<close>
  | Uninitialized_read  \<comment> \<open>a local variable is read before it was written\<close>
  | Non_finite          \<comment> \<open>a division by zero: an IEEE infinity or NaN, no rational value\<close>

definition bindF :: "stuck + 'a \<Rightarrow> ('a \<Rightarrow> stuck + 'b) \<Rightarrow> stuck + 'b" where
  "bindF m k = (case m of Inl e \<Rightarrow> Inl e | Inr x \<Rightarrow> k x)"

subsection \<open>Floating point: binary64 arithmetic, binary32 results\<close>

text \<open>
  A finite floating-point value is the rational number it denotes. \<open>fl_round t x\<close> is
  the number with a significand of \<open>t\<close> bits nearest to \<open>x\<close>, ties going to the even
  significand: \<open>t = 53\<close> for \<open>double\<close>, \<open>t = 24\<close> for \<open>float\<close>. The exponent range is
  not modelled: every nonzero magnitude the driver computes from a 32-bit pulse count
  lies between \<open>2^-12\<close> and \<open>2^32\<close>, far inside both formats, so neither overflow
  nor gradual underflow occurs. Every operation is rounded once, to its own type
  (\<open>FLT_EVAL_METHOD\<close> 0, no contraction).
\<close>

definition pow2 :: "int \<Rightarrow> rat" where
  "pow2 k = (if 0 \<le> k then 2 ^ nat k else 1 / 2 ^ nat (- k))"

text \<open>For \<open>x > 0\<close>, \<open>ilog2 x\<close> is the \<open>e\<close> with \<open>2^e \<le> x < 2^(e+1)\<close>.\<close>

definition ilog2 :: "rat \<Rightarrow> int" where
  "ilog2 x = (if 1 \<le> x then bitlen \<lfloor>x\<rfloor> - 1 else - bitlen (\<lceil>1 / x\<rceil> - 1))"

text \<open>Rounding to the nearest integer, ties to even.\<close>

definition rne :: "rat \<Rightarrow> int" where
  "rne x = (let f = \<lfloor>x\<rfloor>; d = x - of_int f in
     if d < 1 / 2 then f
     else if 1 / 2 < d then f + 1
     else if even f then f else f + 1)"

definition fl_round :: "nat \<Rightarrow> rat \<Rightarrow> rat" where
  "fl_round t x = (if x = 0 then 0 else
     let q = pow2 (ilog2 \<bar>x\<bar> - int t + 1) in
     sgn x * (of_int (rne (\<bar>x\<bar> / q)) * q))"

definition to_double :: "rat \<Rightarrow> rat" where
  "to_double x = fl_round 53 x"

definition to_float :: "rat \<Rightarrow> rat" where
  "to_float x = fl_round 24 x"

definition d_add :: "rat \<Rightarrow> rat \<Rightarrow> rat" where
  "d_add x y = to_double (x + y)"

definition d_sub :: "rat \<Rightarrow> rat \<Rightarrow> rat" where
  "d_sub x y = to_double (x - y)"

definition d_mul :: "rat \<Rightarrow> rat \<Rightarrow> rat" where
  "d_mul x y = to_double (x * y)"

definition d_div :: "rat \<Rightarrow> rat \<Rightarrow> stuck + rat" where
  "d_div x y = (if y = 0 then Inl Non_finite else Inr (to_double (x / y)))"

text \<open>The conversions of the integer arguments to \<open>double\<close>.\<close>

definition u32_to_double :: "u32 \<Rightarrow> rat" where
  "u32_to_double w = to_double (of_nat (unat w))"

definition i16_to_double :: "i16 \<Rightarrow> rat" where
  "i16_to_double w = to_double (of_int (sint w))"

subsection \<open>Types of lmt01.h\<close>

text \<open>
  \<open>lmt_conv_t\<close> is a C enumeration: an integer type with two named values, which can
  hold other integers as well (the last \<open>else\<close> of \<open>lmt_pulses_to_temperature\<close> is the
  branch for them).
\<close>

type_synonym lmt_conv_t = int

definition CONV_TYPE_EQU :: lmt_conv_t where
  "CONV_TYPE_EQU = 0"

definition CONV_TYPE_LUT :: lmt_conv_t where
  "CONV_TYPE_LUT = 1"

datatype lmt_status_t = LMT_OK | LMT_E_NULL_PTR | LMT_E_DEV_NOT_FOUND | LMT_E_TIMEOUT

text \<open>
  The device structure. \<open>'hw\<close> is the state of everything beyond the driver (the timer
  peripheral, the sensor, the clock); a callback is a function on it, and a null
  function pointer is \<open>None\<close>. \<open>'t\<close> is the timer context, which the driver only hands
  back to the callbacks. lmt01.c calls \<open>set_timer_cnt\<close> with the timer and a count,
  and uses the value that \<open>get_timer_cnt\<close> returns; the model takes the callbacks as
  lmt01.c calls them. A callback that is called returns.
\<close>

record ('t, 'hw) lmt01_dev =
  timer :: 't
  start_timer :: "('t \<Rightarrow> 'hw \<Rightarrow> 'hw) option"
  stop_timer :: "('t \<Rightarrow> 'hw \<Rightarrow> 'hw) option"
  set_timer_cnt :: "('t \<Rightarrow> u32 \<Rightarrow> 'hw \<Rightarrow> 'hw) option"
  get_timer_cnt :: "('t \<Rightarrow> 'hw \<Rightarrow> u32 \<times> 'hw) option"
  delay_ms :: "(u32 \<Rightarrow> 'hw \<Rightarrow> 'hw) option"

subsection \<open>The look-up table\<close>

text \<open>\<open>lut[i][0]\<close> is a temperature in degrees Celsius, \<open>lut[i][1]\<close> its pulse count.\<close>

definition lut :: "(i16 \<times> i16) list" where
  "lut =
    [(- 50, 26), (- 40, 181), (- 30, 338), (- 20, 494), (- 10, 651), (0, 808),
     (10, 966), (20, 1125), (30, 1284), (40, 1443), (50, 1602), (60, 1762),
     (70, 1923), (80, 2084), (90, 2245), (100, 2407), (110, 2569), (120, 2731),
     (130, 2893), (140, 3057), (150, 3218)]"

text \<open>\<open>LEN(lut)\<close>, the number of rows.\<close>

definition LEN_lut :: nat where
  "LEN_lut = length lut"

text \<open>Reading row \<open>i\<close> of \<open>lut\<close>; C defines it for the 21 rows only.\<close>

definition lut_at :: "nat \<Rightarrow> stuck + (i16 \<times> i16)" where
  "lut_at i = (if i < length lut then Inr (lut ! i) else Inl Out_of_bounds_read)"

subsection \<open>Conversion of a pulse count\<close>

definition map_c :: "rat \<Rightarrow> rat \<Rightarrow> rat \<Rightarrow> rat \<Rightarrow> rat \<Rightarrow> stuck + rat" where
  "map_c val in_min in_max out_min out_max =
     bindF (d_div (d_mul (d_sub val in_min) (d_sub out_max out_min)) (d_sub in_max in_min))
       (\<lambda>q. Inr (d_add q out_min))"

text \<open>
  The \<open>for\<close> loop of \<open>lmt_pulses_to_temperature\<close>, from index \<open>i\<close> on; its value is the
  \<open>i\<close> the loop ends with. \<open>&&\<close> evaluates \<open>lut[i + 1][1]\<close> only when its left operand
  holds. In the comparisons the \<open>int16_t\<close> is converted to the unsigned 32-bit type of
  \<open>pulses\<close> (\<open>scast\<close>).
\<close>

function lut_scan :: "u32 \<Rightarrow> nat \<Rightarrow> stuck + nat" where
  "lut_scan pulses i =
     (if i < LEN_lut then
        (case lut_at i of
           Inl e \<Rightarrow> Inl e
         | Inr a \<Rightarrow>
             if scast (snd a) \<le> pulses then
               (case lut_at (i + 1) of
                  Inl e \<Rightarrow> Inl e
                | Inr b \<Rightarrow> if pulses \<le> scast (snd b) then Inr i else lut_scan pulses (i + 1))
             else lut_scan pulses (i + 1))
      else Inr i)"
  by pat_completeness auto
termination
  by (relation "measure (\<lambda>(pulses, i). LEN_lut - i)") auto

definition lmt_pulses_to_temperature :: "u32 \<Rightarrow> lmt_conv_t \<Rightarrow> stuck + rat" where
  "lmt_pulses_to_temperature pulses type =
     (if pulses = 0 then Inr (- 1)
      else if type = CONV_TYPE_EQU then
        bindF (d_div (u32_to_double pulses) 4096)
          (\<lambda>q. Inr (to_float (d_sub (d_mul q 256) 50)))
      else if type = CONV_TYPE_LUT then
        bindF (lut_scan pulses 0) (\<lambda>i.
        bindF (lut_at i) (\<lambda>a.
        bindF (lut_at (i + 1)) (\<lambda>b.
        bindF (map_c (u32_to_double pulses) (i16_to_double (snd a)) (i16_to_double (snd b))
                 (i16_to_double (fst a)) (i16_to_double (fst b)))
          (\<lambda>t. Inr (to_float t)))))
      else Inr 0)"

subsection \<open>Counting pulses\<close>

text \<open>A call through a function pointer of the device structure.\<close>

definition call :: "'f option \<Rightarrow> stuck + 'f" where
  "call fp = (case fp of None \<Rightarrow> Inl Null_pointer | Some f \<Rightarrow> Inr f)"

text \<open>\<open>dev\<close> is a pointer to the device structure: \<open>None\<close> is \<open>NULL\<close>.\<close>

definition null_ptr_check :: "('t, 'hw) lmt01_dev option \<Rightarrow> lmt_status_t" where
  "null_ptr_check dev =
     (case dev of
        None \<Rightarrow> LMT_E_NULL_PTR
      | Some d \<Rightarrow>
          if Option.is_none (start_timer d) \<or> Option.is_none (stop_timer d) \<or>
             Option.is_none (set_timer_cnt d) \<or> Option.is_none (get_timer_cnt d) \<or>
             Option.is_none (delay_ms d)
          then LMT_E_NULL_PTR
          else LMT_OK)"

definition count_pulses_ms ::
    "('t, 'hw) lmt01_dev \<Rightarrow> u32 \<Rightarrow> 'hw \<Rightarrow> stuck + (u32 \<times> 'hw)" where
  "count_pulses_ms dev period hw0 =
     bindF (call (stop_timer dev)) (\<lambda>stop. let hw1 = stop (timer dev) hw0 in
     bindF (call (set_timer_cnt dev)) (\<lambda>set_cnt. let hw2 = set_cnt (timer dev) 0 hw1 in
     bindF (call (start_timer dev)) (\<lambda>start. let hw3 = start (timer dev) hw2 in
     bindF (call (delay_ms dev)) (\<lambda>delay. let hw4 = delay period hw3 in
     bindF (call (stop_timer dev)) (\<lambda>stop'. let hw5 = stop' (timer dev) hw4 in
     bindF (call (get_timer_cnt dev)) (\<lambda>get_cnt. Inr (get_cnt (timer dev) hw5)))))))"

subsection \<open>The public functions\<close>

text \<open>
  A function returns its status and the state of the hardware it leaves behind. An
  output parameter is the value the function stores through it: \<open>None\<close> when it
  stores nothing. The pointers \<open>pulses\<close> and \<open>temp\<close> that the caller passes are taken
  to be valid.
\<close>

definition lmt_init ::
    "('t, 'hw) lmt01_dev option \<Rightarrow> 'hw \<Rightarrow> stuck + (lmt_status_t \<times> 'hw)" where
  "lmt_init dev hw =
     (if null_ptr_check dev \<noteq> LMT_OK then Inr (LMT_E_NULL_PTR, hw)
      else case dev of
        None \<Rightarrow> Inl Null_pointer
      | Some d \<Rightarrow>
          bindF (count_pulses_ms d 60 hw) (\<lambda>(pulses, hw').
            if pulses = 0 then Inr (LMT_E_DEV_NOT_FOUND, hw') else Inr (LMT_OK, hw')))"

text \<open>
  \<open>while(count_pulses_ms(dev, 10) != 0);\<close> The loop has no bound, so its model is a
  partial function: \<open>None\<close> is the loop that never ends.
\<close>

partial_function (option) wait_idle ::
    "('t, 'hw) lmt01_dev \<Rightarrow> 'hw \<Rightarrow> (stuck + 'hw) option" where
  "wait_idle dev hw =
     (case count_pulses_ms dev 10 hw of
        Inl e \<Rightarrow> Some (Inl e)
      | Inr (n, hw') \<Rightarrow> if n \<noteq> 0 then wait_idle dev hw' else Some (Inr hw'))"

definition lmt_get_pulse_count ::
    "('t, 'hw) lmt01_dev option \<Rightarrow> 'hw \<Rightarrow> (stuck + (lmt_status_t \<times> u32 option \<times> 'hw)) option" where
  "lmt_get_pulse_count dev hw =
     (if null_ptr_check dev \<noteq> LMT_OK then Some (Inr (LMT_E_NULL_PTR, None, hw))
      else case dev of
        None \<Rightarrow> Some (Inl Null_pointer)
      | Some d \<Rightarrow>
          (case wait_idle d hw of
             None \<Rightarrow> None
           | Some (Inl e) \<Rightarrow> Some (Inl e)
           | Some (Inr hw1) \<Rightarrow>
               (case count_pulses_ms d 104 hw1 of
                  Inl e \<Rightarrow> Some (Inl e)
                | Inr (pulse_count, hw2) \<Rightarrow>
                    if pulse_count = 0 then Some (Inr (LMT_E_DEV_NOT_FOUND, None, hw2))
                    else Some (Inr (LMT_OK, Some pulse_count, hw2)))))"

text \<open>
  The local \<open>pulses\<close> of \<open>lmt_get_temperature\<close> has no initial value; it holds what
  \<open>lmt_get_pulse_count\<close> stored, if anything.
\<close>

definition lmt_get_temperature ::
    "('t, 'hw) lmt01_dev option \<Rightarrow> lmt_conv_t \<Rightarrow> 'hw \<Rightarrow>
       (stuck + (lmt_status_t \<times> rat option \<times> 'hw)) option" where
  "lmt_get_temperature dev type hw =
     (case lmt_get_pulse_count dev hw of
        None \<Rightarrow> None
      | Some (Inl e) \<Rightarrow> Some (Inl e)
      | Some (Inr (rslt, pulses, hw')) \<Rightarrow>
          if rslt \<noteq> LMT_OK then Some (Inr (rslt, None, hw'))
          else (case pulses of
                  None \<Rightarrow> Some (Inl Uninitialized_read)
                | Some p \<Rightarrow>
                    (case lmt_pulses_to_temperature p type of
                       Inl e \<Rightarrow> Some (Inl e)
                     | Inr temp \<Rightarrow> Some (Inr (LMT_OK, Some temp, hw')))))"

subsection \<open>Notions used to state the properties\<close>

text \<open>A device structure with all five function pointers set.\<close>

definition complete :: "('t, 'hw) lmt01_dev \<Rightarrow> bool" where
  "complete d \<longleftrightarrow>
     \<not> Option.is_none (start_timer d) \<and> \<not> Option.is_none (stop_timer d) \<and>
     \<not> Option.is_none (set_timer_cnt d) \<and> \<not> Option.is_none (get_timer_cnt d) \<and>
     \<not> Option.is_none (delay_ms d)"

text \<open>
  One counting window written as the six calls it consists of, for callbacks given
  directly: stop, reset to zero, start, delay, stop, read.
\<close>

definition window ::
    "'t \<Rightarrow> ('t \<Rightarrow> 'hw \<Rightarrow> 'hw) \<Rightarrow> ('t \<Rightarrow> 'hw \<Rightarrow> 'hw) \<Rightarrow> ('t \<Rightarrow> u32 \<Rightarrow> 'hw \<Rightarrow> 'hw) \<Rightarrow>
     ('t \<Rightarrow> 'hw \<Rightarrow> u32 \<times> 'hw) \<Rightarrow> (u32 \<Rightarrow> 'hw \<Rightarrow> 'hw) \<Rightarrow> u32 \<Rightarrow> 'hw \<Rightarrow> u32 \<times> 'hw" where
  "window tm start stop set_cnt get_cnt delay period hw =
     get_cnt tm (stop tm (delay period (start tm (set_cnt tm 0 (stop tm hw)))))"

text \<open>
  What \<open>count_pulses_ms\<close> returns, and the hardware as it leaves it, on a complete
  device (where it is never stuck).
\<close>

definition probe :: "('t, 'hw) lmt01_dev \<Rightarrow> u32 \<Rightarrow> 'hw \<Rightarrow> u32 \<times> 'hw" where
  "probe d period hw =
     (case count_pulses_ms d period hw of Inl e \<Rightarrow> (0, hw) | Inr r \<Rightarrow> r)"

text \<open>The state of the hardware before the \<open>k\<close>-th 10 ms window of the wait loop.\<close>

fun wait_state :: "('t, 'hw) lmt01_dev \<Rightarrow> 'hw \<Rightarrow> nat \<Rightarrow> 'hw" where
  "wait_state d hw 0 = hw"
| "wait_state d hw (Suc k) = snd (probe d 10 (wait_state d hw k))"

text \<open>The count that the \<open>k\<close>-th 10 ms window reports.\<close>

definition wait_count :: "('t, 'hw) lmt01_dev \<Rightarrow> 'hw \<Rightarrow> nat \<Rightarrow> u32" where
  "wait_count d hw k = fst (probe d 10 (wait_state d hw k))"

text \<open>The temperature and the pulse count of row \<open>i\<close> of the table.\<close>

definition lut_temp :: "nat \<Rightarrow> rat" where
  "lut_temp i = of_int (sint (fst (lut ! i)))"

definition lut_pulses :: "nat \<Rightarrow> u32" where
  "lut_pulses i = scast (snd (lut ! i))"

text \<open>
  The line through rows \<open>i\<close> and \<open>i + 1\<close> of the table at a pulse count \<open>z\<close>, with the
  roundings of \<open>map\<close> and of the store to \<open>float\<close>.
\<close>

definition lut_interp :: "nat \<Rightarrow> int \<Rightarrow> rat" where
  "lut_interp i z =
     to_float (to_double
       (to_double (of_int ((z - uint (lut_pulses i)) * 10) /
                   of_int (uint (lut_pulses (Suc i)) - uint (lut_pulses i)))
        + lut_temp i))"

text \<open>The order on results that are numbers.\<close>

definition temp_le :: "stuck + rat \<Rightarrow> stuck + rat \<Rightarrow> bool" where
  "temp_le a b = (case (a, b) of (Inr x, Inr y) \<Rightarrow> x \<le> y | _ \<Rightarrow> False)"

subsection \<open>A timer for examples\<close>

text \<open>
  A timer that records the calls made to it. Each delay adds to the counter the next
  number of \<open>script\<close>, and \<open>idle\<close> once the script is used up: the pulses that arrive
  in that window.
\<close>

datatype event = Start | Stop | Set_cnt u32 | Get_cnt | Delay u32

record fake_hw =
  cnt :: u32
  script :: "u32 list"
  idle :: u32
  trace :: "event list"

definition fake_start :: "unit \<Rightarrow> fake_hw \<Rightarrow> fake_hw" where
  "fake_start tm hw = hw\<lparr>trace := trace hw @ [Start]\<rparr>"

definition fake_stop :: "unit \<Rightarrow> fake_hw \<Rightarrow> fake_hw" where
  "fake_stop tm hw = hw\<lparr>trace := trace hw @ [Stop]\<rparr>"

definition fake_set_cnt :: "unit \<Rightarrow> u32 \<Rightarrow> fake_hw \<Rightarrow> fake_hw" where
  "fake_set_cnt tm n hw = hw\<lparr>cnt := n, trace := trace hw @ [Set_cnt n]\<rparr>"

definition fake_get_cnt :: "unit \<Rightarrow> fake_hw \<Rightarrow> u32 \<times> fake_hw" where
  "fake_get_cnt tm hw = (cnt hw, hw\<lparr>trace := trace hw @ [Get_cnt]\<rparr>)"

definition fake_delay :: "u32 \<Rightarrow> fake_hw \<Rightarrow> fake_hw" where
  "fake_delay ms hw =
     (case script hw of
        [] \<Rightarrow> hw\<lparr>cnt := cnt hw + idle hw, trace := trace hw @ [Delay ms]\<rparr>
      | n # ns \<Rightarrow> hw\<lparr>cnt := cnt hw + n, script := ns, trace := trace hw @ [Delay ms]\<rparr>)"

definition fake_dev :: "(unit, fake_hw) lmt01_dev" where
  "fake_dev = \<lparr>timer = (), start_timer = Some fake_start, stop_timer = Some fake_stop,
     set_timer_cnt = Some fake_set_cnt, get_timer_cnt = Some fake_get_cnt,
     delay_ms = Some fake_delay\<rparr>"

definition fake_init :: "u32 list \<Rightarrow> u32 \<Rightarrow> fake_hw" where
  "fake_init ns n = \<lparr>cnt = 0, script = ns, idle = n, trace = []\<rparr>"

text \<open>The equation of the loop mentions the loop itself: it is unfolded by hand.\<close>

declare lut_scan.simps [simp del]

section \<open>Rounding\<close>

text \<open>
  Powers of two, the binade of a positive number, and the two facts about rounding that
  the properties of the conversion rest on: a number that fits the significand is not
  changed, and rounding keeps the order.
\<close>

lemma pow2_powi: "pow2 k = 2 powi k"
  by (simp add: pow2_def power_int_def inverse_eq_divide power_one_over)

lemma pow2_pos: "0 < pow2 k"
  by (simp add: pow2_powi)

lemma pow2_add: "pow2 (a + b) = pow2 a * pow2 b"
  by (simp add: pow2_powi power_int_add)

lemma pow2_le: "a \<le> b \<Longrightarrow> pow2 a \<le> pow2 b"
  by (simp add: pow2_powi power_int_increasing)

lemma pow2_less_cancel: "pow2 a < pow2 b \<Longrightarrow> a < b"
proof (rule ccontr)
  assume lt: "pow2 a < pow2 b" and "\<not> a < b"
  then have "b \<le> a" by simp
  then have "pow2 b \<le> pow2 a" by (rule pow2_le)
  with lt show False by simp
qed

lemma pow2_nat: "0 \<le> k \<Longrightarrow> pow2 k = of_int (2 ^ nat k)"
  by (simp add: pow2_def)

lemma ilog2_lower: assumes "0 < x" shows "pow2 (ilog2 x) \<le> x"
proof (cases "1 \<le> x")
  case True
  then have fpos: "0 < \<lfloor>x\<rfloor>" by linarith
  from bitlen_bounds [OF fpos] have "2 ^ nat (bitlen \<lfloor>x\<rfloor> - 1) \<le> \<lfloor>x\<rfloor>" by simp
  then have "(of_int (2 ^ nat (bitlen \<lfloor>x\<rfloor> - 1)) :: rat) \<le> of_int \<lfloor>x\<rfloor>"
    by (simp only: of_int_le_iff)
  also have "\<dots> \<le> x" by simp
  finally have "(of_int (2 ^ nat (bitlen \<lfloor>x\<rfloor> - 1)) :: rat) \<le> x" .
  moreover have "0 \<le> bitlen \<lfloor>x\<rfloor> - 1"
    using fpos by (simp add: bitlen_alt_def)
  ultimately show ?thesis using True
    by (simp add: ilog2_def pow2_nat)
next
  case False
  define n where "n = \<lceil>1 / x\<rceil>"
  define k where "k = bitlen (n - 1)"
  from False assms have "1 < 1 / x" by simp
  then have n2: "2 \<le> n" unfolding n_def by linarith
  then have mpos: "0 < n - 1" by simp
  have kge: "0 \<le> k" unfolding k_def by (rule bitlen_nonneg)
  from bitlen_bounds [OF mpos] have "n - 1 < 2 ^ nat k" by (simp add: k_def)
  then have "n \<le> 2 ^ nat k" by simp
  then have le: "(of_int n :: rat) \<le> of_int (2 ^ nat k)" by (simp only: of_int_le_iff)
  have "1 / x \<le> of_int n" unfolding n_def by simp
  also note le
  finally have "1 / x \<le> pow2 k" using kge by (simp add: pow2_nat)
  then have "1 \<le> pow2 k * x" using assms by (simp add: field_simps)
  moreover have "pow2 (- k) * pow2 k = 1"
    using pow2_add [of "- k" k] by (simp add: pow2_def)
  ultimately have "pow2 (- k) \<le> x"
    using pow2_pos [of k] pow2_pos [of "- k"]
    by (metis mult.assoc mult.commute mult.right_neutral mult_le_cancel_left_pos)
  then show ?thesis using False by (simp add: ilog2_def n_def k_def)
qed

lemma ilog2_upper: assumes "0 < x" shows "x < pow2 (ilog2 x + 1)"
proof (cases "1 \<le> x")
  case True
  then have fpos: "0 < \<lfloor>x\<rfloor>" by linarith
  have bl: "0 \<le> bitlen \<lfloor>x\<rfloor>" by (rule bitlen_nonneg)
  from bitlen_bounds [OF fpos] have "\<lfloor>x\<rfloor> + 1 \<le> 2 ^ nat (bitlen \<lfloor>x\<rfloor>)" by simp
  then have "(of_int (\<lfloor>x\<rfloor> + 1) :: rat) \<le> of_int (2 ^ nat (bitlen \<lfloor>x\<rfloor>))"
    by (simp only: of_int_le_iff)
  moreover have "x < of_int (\<lfloor>x\<rfloor> + 1)" by linarith
  ultimately have "x < of_int (2 ^ nat (bitlen \<lfloor>x\<rfloor>))" by simp
  then show ?thesis using True bl by (simp add: ilog2_def pow2_nat)
next
  case False
  define n where "n = \<lceil>1 / x\<rceil>"
  define k where "k = bitlen (n - 1)"
  from False assms have "1 < 1 / x" by simp
  then have n2: "2 \<le> n" unfolding n_def by linarith
  then have mpos: "0 < n - 1" by simp
  have kge: "1 \<le> k" unfolding k_def using mpos by (simp add: bitlen_alt_def)
  from bitlen_bounds [OF mpos] have "2 ^ nat (k - 1) \<le> n - 1" by (simp add: k_def)
  then have "(of_int (2 ^ nat (k - 1)) :: rat) \<le> of_int (n - 1)" by (simp only: of_int_le_iff)
  moreover have "of_int (n - 1) < 1 / x" unfolding n_def by linarith
  ultimately have "pow2 (k - 1) < 1 / x" using kge by (simp add: pow2_nat)
  then have "pow2 (k - 1) * x < 1" using assms by (simp add: field_simps)
  moreover have "pow2 (- k + 1) * pow2 (k - 1) = 1"
    using pow2_add [of "- k + 1" "k - 1"] by (simp add: pow2_def)
  ultimately have "x < pow2 (- k + 1)"
    using pow2_pos [of "k - 1"] pow2_pos [of "- k + 1"]
    by (metis mult.assoc mult.commute mult.right_neutral mult_less_cancel_left_pos)
  then show ?thesis using False by (simp add: ilog2_def n_def k_def)
qed


lemma rne_of_int: "rne (of_int n) = n"
  by (simp add: rne_def)

lemma rne_range: "\<lfloor>x\<rfloor> \<le> rne x \<and> rne x \<le> \<lfloor>x\<rfloor> + 1"
  by (simp add: rne_def Let_def)

lemma rne_mono: assumes "x \<le> y" shows "rne x \<le> rne y"
proof (cases "\<lfloor>x\<rfloor> = \<lfloor>y\<rfloor>")
  case True
  with assms have "x - of_int \<lfloor>x\<rfloor> \<le> y - of_int \<lfloor>y\<rfloor>" by simp
  with True show ?thesis by (auto simp: rne_def Let_def)
next
  case False
  with assms have "\<lfloor>x\<rfloor> + 1 \<le> \<lfloor>y\<rfloor>" using floor_mono [OF assms] by linarith
  with rne_range [of x] rne_range [of y] show ?thesis by linarith
qed

lemma rne_ge: "of_int a \<le> x \<Longrightarrow> a \<le> rne x"
  using rne_mono [of "of_int a" x] by (simp add: rne_of_int)

lemma rne_le: "x \<le> of_int b \<Longrightarrow> rne x \<le> b"
  using rne_mono [of x "of_int b"] by (simp add: rne_of_int)

lemma fl_round_pos:
  "0 < x \<Longrightarrow> fl_round t x = of_int (rne (x / pow2 (ilog2 x - int t + 1))) * pow2 (ilog2 x - int t + 1)"
  by (simp add: fl_round_def Let_def)

lemma fl_round_minus: "fl_round t (- x) = - fl_round t x"
  by (simp add: fl_round_def Let_def)

lemma fl_round_0: "fl_round t 0 = 0"
  by (simp add: fl_round_def)

lemma fl_round_lower:
  assumes "0 < x" and "1 \<le> t"
  shows "pow2 (ilog2 x) \<le> fl_round t x"
proof -
  define q where "q = pow2 (ilog2 x - int t + 1)"
  have qpos: "0 < q" unfolding q_def by (rule pow2_pos)
  have split: "pow2 (ilog2 x) = of_int (2 ^ (t - 1)) * q"
    using pow2_add [of "int t - 1" "ilog2 x - int t + 1"] assms(2)
    by (simp add: q_def pow2_nat nat_diff_distrib)
  from ilog2_lower [OF assms(1)] have "of_int (2 ^ (t - 1)) * q \<le> x" by (simp add: split)
  then have "of_int (2 ^ (t - 1)) \<le> x / q" using qpos by (simp add: field_simps)
  then have "2 ^ (t - 1) \<le> rne (x / q)" by (rule rne_ge)
  then have "(of_int (2 ^ (t - 1)) :: rat) \<le> of_int (rne (x / q))" by (simp only: of_int_le_iff)
  then have "of_int (2 ^ (t - 1)) * q \<le> of_int (rne (x / q)) * q"
    using qpos by (simp only: mult_le_cancel_right_pos)
  then show ?thesis unfolding split fl_round_pos [OF assms(1)] q_def .
qed

lemma fl_round_upper:
  assumes "0 < x" and "1 \<le> t"
  shows "fl_round t x \<le> pow2 (ilog2 x + 1)"
proof -
  define q where "q = pow2 (ilog2 x - int t + 1)"
  have qpos: "0 < q" unfolding q_def by (rule pow2_pos)
  have split: "pow2 (ilog2 x + 1) = of_int (2 ^ t) * q"
    using pow2_add [of "int t" "ilog2 x - int t + 1"]
    by (simp add: q_def pow2_nat)
  from ilog2_upper [OF assms(1)] have "x \<le> of_int (2 ^ t) * q" by (simp add: split)
  then have "x / q \<le> of_int (2 ^ t)" using qpos by (simp add: field_simps)
  then have "rne (x / q) \<le> 2 ^ t" by (rule rne_le)
  then have "(of_int (rne (x / q)) :: rat) \<le> of_int (2 ^ t)" by (simp only: of_int_le_iff)
  then have "of_int (rne (x / q)) * q \<le> of_int (2 ^ t) * q"
    using qpos by (simp only: mult_le_cancel_right_pos)
  then show ?thesis unfolding split fl_round_pos [OF assms(1)] q_def .
qed

lemma fl_round_pos_mono:
  assumes "0 < x" and "x \<le> y" and "1 \<le> t"
  shows "fl_round t x \<le> fl_round t y"
proof -
  from assms have ypos: "0 < y" by simp
  have "pow2 (ilog2 x) \<le> x" using assms(1) by (rule ilog2_lower)
  also note assms(2)
  also have "y < pow2 (ilog2 y + 1)" using ypos by (rule ilog2_upper)
  finally have "ilog2 x < ilog2 y + 1" by (rule pow2_less_cancel)
  then consider "ilog2 x = ilog2 y" | "ilog2 x + 1 \<le> ilog2 y" by linarith
  then show ?thesis
  proof cases
    case 1
    define q where "q = pow2 (ilog2 y - int t + 1)"
    have qpos: "0 < q" unfolding q_def by (rule pow2_pos)
    from assms(2) qpos have "x / q \<le> y / q" by (simp add: divide_right_mono)
    then have "rne (x / q) \<le> rne (y / q)" by (rule rne_mono)
    then have "(of_int (rne (x / q)) :: rat) \<le> of_int (rne (y / q))" by (simp only: of_int_le_iff)
    then have "of_int (rne (x / q)) * q \<le> of_int (rne (y / q)) * q"
      using qpos by (simp only: mult_le_cancel_right_pos)
    then show ?thesis
      unfolding fl_round_pos [OF assms(1)] fl_round_pos [OF ypos] 1 q_def .
  next
    case 2
    have "fl_round t x \<le> pow2 (ilog2 x + 1)" using assms(1,3) by (rule fl_round_upper)
    also have "\<dots> \<le> pow2 (ilog2 y)" using 2 by (rule pow2_le)
    also have "\<dots> \<le> fl_round t y" using ypos assms(3) by (rule fl_round_lower)
    finally show ?thesis .
  qed
qed

lemma fl_round_pos_pos: "0 < x \<Longrightarrow> 1 \<le> t \<Longrightarrow> 0 < fl_round t x"
  using fl_round_lower [of x t] pow2_pos [of "ilog2 x"] by simp

lemma fl_round_mono:
  assumes "x \<le> y" and "1 \<le> t"
  shows "fl_round t x \<le> fl_round t y"
proof -
  consider "0 < x" | "x = 0" "y = 0" | "x = 0" "0 < y" | "x < 0" "0 < y" | "x < 0" "y = 0" | "x < 0" "y < 0"
    using assms(1) by linarith
  then show ?thesis
  proof cases
    case 1
    then show ?thesis using assms by (rule fl_round_pos_mono)
  next
    case 2
    then show ?thesis by simp
  next
    case 3
    then show ?thesis using fl_round_pos_pos [of y t] assms(2) by (simp add: fl_round_0)
  next
    case 4
    then show ?thesis
      using fl_round_pos_pos [of y t] fl_round_pos_pos [of "- x" t] assms(2)
      by (simp add: fl_round_minus)
  next
    case 5
    then show ?thesis
      using fl_round_pos_pos [of "- x" t] assms(2)
      by (simp add: fl_round_minus fl_round_0)
  next
    case 6
    then have "fl_round t (- y) \<le> fl_round t (- x)"
      using assms by (intro fl_round_pos_mono) simp_all
    then show ?thesis by (simp add: fl_round_minus)
  qed
qed

lemma fl_round_exact_pos:
  assumes "0 < m" and "m < 2 ^ t"
  shows "fl_round t (of_int m * pow2 k) = of_int m * pow2 k"
proof -
  define x where "x = of_int m * pow2 k"
  have xpos: "0 < x" unfolding x_def using assms(1) pow2_pos [of k] by simp
  define q where "q = pow2 (ilog2 x - int t + 1)"
  define j where "j = k - (ilog2 x - int t + 1)"
  have qpos: "0 < q" unfolding q_def by (rule pow2_pos)
  have "pow2 (ilog2 x) \<le> x" using xpos by (rule ilog2_lower)
  also have "x < of_int (2 ^ t) * pow2 k"
    unfolding x_def using assms(2) pow2_pos [of k]
    by (simp only: mult_less_cancel_right_pos of_int_less_iff)
  also have "of_int (2 ^ t) * pow2 k = pow2 (int t + k)"
    using pow2_add [of "int t" k] by (simp add: pow2_nat)
  finally have "ilog2 x < int t + k" by (rule pow2_less_cancel)
  then have jge: "0 \<le> j" unfolding j_def by simp
  have kq: "pow2 k = pow2 j * q"
    using pow2_add [of j "ilog2 x - int t + 1"] by (simp add: j_def q_def)
  have pj: "pow2 j = of_int (2 ^ nat j)" using jge by (rule pow2_nat)
  have "x / q = of_int m * pow2 j"
    using qpos by (simp add: x_def kq)
  also have "\<dots> = of_int (m * 2 ^ nat j)" by (simp add: pj)
  finally have "rne (x / q) = m * 2 ^ nat j"
    by (simp only: rne_of_int)
  then have "fl_round t x = of_int (m * 2 ^ nat j) * q"
    by (simp only: fl_round_pos [OF xpos] q_def)
  also have "\<dots> = of_int m * (pow2 j * q)"
    by (simp add: pj)
  also have "\<dots> = of_int m * pow2 k"
    by (simp only: kq)
  finally show ?thesis unfolding x_def .
qed

lemma fl_round_exact:
  assumes "\<bar>m\<bar> < 2 ^ t"
  shows "fl_round t (of_int m * pow2 k) = of_int m * pow2 k"
proof -
  consider "0 < m" | "m = 0" | "m < 0" by linarith
  then show ?thesis
  proof cases
    case 1
    then show ?thesis using assms by (intro fl_round_exact_pos) simp_all
  next
    case 2
    then show ?thesis by (simp add: fl_round_0)
  next
    case 3
    then have "fl_round t (of_int (- m) * pow2 k) = of_int (- m) * pow2 k"
      using assms by (intro fl_round_exact_pos) simp_all
    then show ?thesis using fl_round_minus [of t "of_int m * pow2 k"] by simp
  qed
qed

lemma fl_round_int: "\<bar>m\<bar> < 2 ^ t \<Longrightarrow> fl_round t (of_int m) = of_int m"
  using fl_round_exact [of m t 0] by (simp add: pow2_def)

lemma fl_round_exact_le:
  assumes "\<bar>m\<bar> \<le> 2 ^ t" and "1 \<le> t"
  shows "fl_round t (of_int m * pow2 k) = of_int m * pow2 k"
proof (cases "\<bar>m\<bar> < 2 ^ t")
  case True
  then show ?thesis by (rule fl_round_exact)
next
  case False
  with assms have eq: "\<bar>m\<bar> = 2 ^ t" by simp
  from assms(2) obtain s where t: "t = Suc s" by (cases t) simp_all
  define h :: int where "h = (if 0 \<le> m then 2 ^ s else - (2 ^ s))"
  have m: "m = 2 * h" using eq unfolding h_def t by (simp add: abs_if split: if_splits)
  have hlt: "\<bar>h\<bar> < 2 ^ t" unfolding h_def t by simp
  have "of_int m * pow2 k = of_int h * pow2 (k + 1)"
    using pow2_add [of 1 k] by (simp add: m pow2_def add.commute)
  moreover have "fl_round t (of_int h * pow2 (k + 1)) = of_int h * pow2 (k + 1)"
    using hlt by (rule fl_round_exact)
  ultimately show ?thesis by simp
qed

subsection \<open>Values that the two formats hold exactly\<close>

lemma to_double_exact: "\<bar>m\<bar> < 2 ^ 53 \<Longrightarrow> to_double (of_int m * pow2 k) = of_int m * pow2 k"
  unfolding to_double_def by (rule fl_round_exact)

lemma to_double_int: "\<bar>m\<bar> < 2 ^ 53 \<Longrightarrow> to_double (of_int m) = of_int m"
  unfolding to_double_def by (rule fl_round_int)

lemma to_float_exact: "\<bar>m\<bar> \<le> 2 ^ 24 \<Longrightarrow> to_float (of_int m * pow2 k) = of_int m * pow2 k"
  unfolding to_float_def by (rule fl_round_exact_le) simp_all

lemma to_float_int: "\<bar>m\<bar> \<le> 2 ^ 24 \<Longrightarrow> to_float (of_int m) = of_int m"
  using to_float_exact [of m 0] by (simp add: pow2_def)

lemma unat_u32_bound: "unat (w :: u32) < 2 ^ 32"
  using unsigned_less [of w, where ?'a = nat] by simp

lemma u32_to_double_exact:
  assumes "n = unat (w :: u32)"
  shows "u32_to_double w = of_int (int n)"
proof -
  have "n < 2 ^ 32" unfolding assms by (rule unat_u32_bound)
  then have "\<bar>int n\<bar> < 2 ^ 53" by simp
  from to_double_int [OF this] show ?thesis by (simp add: u32_to_double_def assms)
qed

lemma equation_double:
  assumes "pulses \<noteq> 0" and "n = unat pulses"
  shows "lmt_pulses_to_temperature pulses CONV_TYPE_EQU =
           Inr (to_float (of_int (int n - 800) * pow2 (- 4)))"
proof -
  define z where "z = int n"
  have "n < 2 ^ 32" unfolding assms(2) by (rule unat_u32_bound)
  then have z: "0 \<le> z" "z < 2 ^ 32" unfolding z_def by simp_all
  have u: "u32_to_double pulses = of_int z"
    unfolding z_def using assms(2) by (rule u32_to_double_exact)
  have b1: "\<bar>z\<bar> < 2 ^ 53" and b2: "\<bar>z - 800\<bar> < 2 ^ 53" using z by simp_all
  have q: "d_div (of_int z) 4096 = Inr (of_int z * pow2 (- 12))"
    using to_double_exact [OF b1, of "- 12"] by (simp add: d_div_def pow2_def)
  have m: "d_mul (of_int z * pow2 (- 12)) 256 = of_int z * pow2 (- 4)"
    using to_double_exact [OF b1, of "- 4"] by (simp add: d_mul_def pow2_def)
  have s: "d_sub (of_int z * pow2 (- 4)) 50 = of_int (z - 800) * pow2 (- 4)"
    using to_double_exact [OF b2, of "- 4"] by (simp add: d_sub_def pow2_def algebra_simps)
  have "bindF (d_div (u32_to_double pulses) 4096) (\<lambda>q. Inr (to_float (d_sub (d_mul q 256) 50)))
          = Inr (to_float (of_int (z - 800) * pow2 (- 4)))"
    by (simp only: u q m s bindF_def sum.case)
  then show ?thesis
    using assms(1) unfolding z_def
    by (simp only: lmt_pulses_to_temperature_def if_False if_True refl)
qed

lemma equation_value: "of_int (int n - 800) * pow2 (- 4) = (of_nat n :: rat) / 4096 * 256 - 50"
  by (simp add: pow2_def)

lemma to_float_tie: "to_float (16777217 * pow2 (- 4)) = 1048576"
  by code_simp

lemma equation_800: "lmt_pulses_to_temperature 800 CONV_TYPE_EQU = Inr 0"
proof -
  have nz: "(800 :: u32) \<noteq> 0" by simp
  have n: "(800 :: nat) = unat (800 :: u32)" by simp
  have "to_float (of_int 0 * pow2 (- 4)) = of_int 0 * pow2 (- 4)"
    by (rule to_float_exact) simp
  moreover have "(of_int (int 800 - 800) :: rat) = of_int 0" by simp
  moreover have "of_int 0 * pow2 (- 4) = 0" by simp
  ultimately show ?thesis
    using equation_double [OF nz n] by (simp only:)
qed

section \<open>The conversion by equation\<close>

text \<open>
  C2. Whatever the conversion type, a pulse count of zero is answered up front, before
  the type is looked at, with the value -1.0. The specification asks for an error
  result that differs from every valid reading; the function returns a \<open>float\<close> and
  its guard returns a number.
\<close>

theorem zero_pulses_sentinel: "lmt_pulses_to_temperature 0 type = Inr (- 1)"
  by (simp add: lmt_pulses_to_temperature_def)

text \<open>
  The value returned for zero pulses is also the reading of the equation at 784
  pulses, \<open>784 / 16 - 50 = -1\<close>: the caller cannot tell the two apart.
\<close>

theorem zero_pulses_counterexample:
  "lmt_pulses_to_temperature 0 CONV_TYPE_EQU = Inr (- 1) \<and>
   lmt_pulses_to_temperature 784 CONV_TYPE_EQU = Inr (- 1)"
proof
  show "lmt_pulses_to_temperature 0 CONV_TYPE_EQU = Inr (- 1)"
    by (simp add: lmt_pulses_to_temperature_def)
  have nz: "(784 :: u32) \<noteq> 0" by simp
  have n: "(784 :: nat) = unat (784 :: u32)" by simp
  have "to_float (of_int (- 16) * pow2 (- 4)) = of_int (- 16) * pow2 (- 4)"
    by (rule to_float_exact) simp
  moreover have "(of_int (int 784 - 800) :: rat) = of_int (- 16)" by simp
  moreover have "of_int (- 16) * pow2 (- 4) = - 1" by (simp add: pow2_def)
  ultimately show "lmt_pulses_to_temperature 784 CONV_TYPE_EQU = Inr (- 1)"
    using equation_double [OF nz n] by (simp only:)
qed

text \<open>
  C3. For every nonzero pulse count the equation method returns the value of
  \<open>(pulses / 4096.0) * 256.0 - 50.0\<close> rounded to \<open>float\<close>, with no bounds check: the
  formula is evaluated in \<open>double\<close>, where it is exact for every 32-bit count, and
  the result is stored in a \<open>float\<close>. It is the value of the formula itself for
  every count up to 16778016, which includes the sensor's range of 1 to 4095.
\<close>

theorem equation_exact_up_to_float:
  "pulses \<noteq> 0 \<longrightarrow>
     lmt_pulses_to_temperature pulses CONV_TYPE_EQU =
       Inr (to_float (of_nat (unat pulses) / 4096 * 256 - 50)) \<and>
     (pulses \<le> 16778016 \<longrightarrow>
        lmt_pulses_to_temperature pulses CONV_TYPE_EQU =
          Inr (of_nat (unat pulses) / 4096 * 256 - 50))"
proof (intro impI conjI)
  define n where "n = unat pulses"
  assume nz: "pulses \<noteq> 0"
  show "lmt_pulses_to_temperature pulses CONV_TYPE_EQU =
       Inr (to_float (of_nat (unat pulses) / 4096 * 256 - 50))"
    using equation_double [OF nz refl] by (simp only: equation_value)
  assume "pulses \<le> 16778016"
  then have "n \<le> 16778016" unfolding n_def by (simp add: word_le_nat_alt)
  then have "\<bar>int n - 800\<bar> \<le> 2 ^ 24" by simp
  from to_float_exact [OF this, of "- 4"]
  show "lmt_pulses_to_temperature pulses CONV_TYPE_EQU =
          Inr (of_nat (unat pulses) / 4096 * 256 - 50)"
    using equation_double [OF nz n_def] unfolding n_def by (simp only: equation_value)
qed

theorem equation_exact_up_to_float_witness:
  "(1762 :: u32) \<noteq> 0 \<and> (1762 :: u32) \<le> 16778016 \<and>
   lmt_pulses_to_temperature 1762 CONV_TYPE_EQU = Inr (1762 / 4096 * 256 - 50)"
proof -
  have h: "(1762 :: u32) \<noteq> 0" "(1762 :: u32) \<le> 16778016" by simp_all
  with equation_exact_up_to_float [of 1762]
  have "lmt_pulses_to_temperature 1762 CONV_TYPE_EQU =
          Inr (of_nat (unat (1762 :: u32)) / 4096 * 256 - 50)" by blast
  moreover have "unat (1762 :: u32) = 1762" by simp
  ultimately show ?thesis using h by simp
qed

text \<open>
  At 16778017 pulses the formula gives \<open>1048576.0625\<close>, half way between two
  neighbouring \<open>float\<close> values; the result is \<open>1048576\<close>.
\<close>

theorem equation_inexact_counterexample:
  "lmt_pulses_to_temperature 16778017 CONV_TYPE_EQU = Inr 1048576 \<and>
   (16778017 / 4096 * 256 - 50 :: rat) = 1048576 + 1 / 16"
proof
  have nz: "(16778017 :: u32) \<noteq> 0" by simp
  have n: "(16778017 :: nat) = unat (16778017 :: u32)" by simp
  have "(of_int (int 16778017 - 800) :: rat) = 16777217" by simp
  with equation_double [OF nz n] to_float_tie
  show "lmt_pulses_to_temperature 16778017 CONV_TYPE_EQU = Inr 1048576" by (simp only:)
  show "(16778017 / 4096 * 256 - 50 :: rat) = 1048576 + 1 / 16"
    by simp
qed

text \<open>
  C10. For every nonzero pulse count, a conversion type that is neither
  \<open>CONV_TYPE_EQU\<close> nor \<open>CONV_TYPE_LUT\<close> yields 0.0, the initial value of \<open>temp\<close>, and
  no error; 0.0 is also a reading, the one of the equation at 800 pulses.
\<close>

theorem unknown_type_zero:
  "(pulses \<noteq> 0 \<and> type \<noteq> CONV_TYPE_EQU \<and> type \<noteq> CONV_TYPE_LUT \<longrightarrow>
      lmt_pulses_to_temperature pulses type = Inr 0) \<and>
   lmt_pulses_to_temperature 800 CONV_TYPE_EQU = Inr 0"
  using equation_800 by (simp add: lmt_pulses_to_temperature_def)

theorem unknown_type_zero_witness:
  "(5 :: u32) \<noteq> 0 \<and> (2 :: lmt_conv_t) \<noteq> CONV_TYPE_EQU \<and> 2 \<noteq> CONV_TYPE_LUT \<and>
   lmt_pulses_to_temperature 5 2 = Inr 0"
  using unknown_type_zero [of 5 2] by (simp add: CONV_TYPE_EQU_def CONV_TYPE_LUT_def)

section \<open>The conversion by look-up table\<close>

subsection \<open>The table\<close>

lemma lut_length: "length lut = 21"
  by (simp add: lut_def)

lemma LEN_lut_21: "LEN_lut = 21"
  by (simp add: LEN_lut_def lut_length)

lemma lut_sorted_list: "sorted_wrt (\<lambda>a b. uint (scast (snd a) :: u32) < uint (scast (snd b) :: u32)) lut"
  by (simp add: lut_def)

lemma lut_range_list:
  "list_all (\<lambda>a. 26 \<le> uint (scast (snd a) :: u32) \<and> uint (scast (snd a) :: u32) \<le> 3218 \<and>
     sint (snd a) = uint (scast (snd a) :: u32) \<and> \<bar>sint (fst a)\<bar> \<le> 150) lut"
  by (simp add: lut_def)

lemma lut_step_list: "successively (\<lambda>a b. sint (fst b) = sint (fst a) + 10) lut"
  by (simp add: lut_def)

lemma lut_pulses_less: "i < j \<Longrightarrow> j < 21 \<Longrightarrow> uint (lut_pulses i) < uint (lut_pulses j)"
  using sorted_wrt_nth_less [OF lut_sorted_list, of i j]
  by (simp add: lut_length lut_pulses_def)

lemma lut_pulses_le: "i \<le> j \<Longrightarrow> j < 21 \<Longrightarrow> uint (lut_pulses i) \<le> uint (lut_pulses j)"
  using lut_pulses_less [of i j] by (cases "i = j") simp_all

lemma lut_row:
  assumes "i < 21"
  shows "26 \<le> uint (lut_pulses i)" and "uint (lut_pulses i) \<le> 3218"
    and "sint (snd (lut ! i)) = uint (lut_pulses i)"
    and "\<bar>sint (fst (lut ! i))\<bar> \<le> 150"
  using lut_range_list assms
  by (simp_all add: list_all_length lut_length lut_pulses_def)

lemma lut_temp_step: "i < 20 \<Longrightarrow> sint (fst (lut ! Suc i)) = sint (fst (lut ! i)) + 10"
  using lut_step_list by (simp add: successively_conv_nth lut_length)

subsection \<open>The scan\<close>

lemma lut_at_in: "i < 21 \<Longrightarrow> lut_at i = Inr (lut ! i)"
  by (simp add: lut_at_def lut_length)

lemma lut_at_out: "21 \<le> i \<Longrightarrow> lut_at i = Inl Out_of_bounds_read"
  by (simp add: lut_at_def lut_length)

lemma scan_skip:
  assumes "i < 20" and "\<not> (lut_pulses i \<le> p \<and> p \<le> lut_pulses (Suc i))"
  shows "lut_scan p i = lut_scan p (Suc i)"
  using assms
  by (subst lut_scan.simps) (auto simp: lut_at_in LEN_lut_21 lut_pulses_def)

lemma scan_hit:
  assumes "i < 20" and "lut_pulses i \<le> p" and "p \<le> lut_pulses (Suc i)"
  shows "lut_scan p i = Inr i"
  using assms
  by (subst lut_scan.simps) (simp add: lut_at_in LEN_lut_21 lut_pulses_def)

lemma scan_last:
  "lut_scan p 20 = (if lut_pulses 20 \<le> p then Inl Out_of_bounds_read else lut_scan p 21)"
  by (subst lut_scan.simps) (simp add: lut_at_in lut_at_out LEN_lut_21 lut_pulses_def)

lemma scan_end: "lut_scan p 21 = Inr 21"
  by (subst lut_scan.simps) (simp add: LEN_lut_21)

lemma scan_segment:
  assumes "i < 20" and "lut_pulses i < p" and "p \<le> lut_pulses (Suc i)" and "j \<le> i"
  shows "lut_scan p j = Inr i"
  using assms(4)
proof (induction j rule: inc_induct)
  case base
  show ?case using assms(1-3) by (intro scan_hit) simp_all
next
  case (step n)
  have "uint (lut_pulses (Suc n)) \<le> uint (lut_pulses i)"
    using step.hyps assms(1) by (intro lut_pulses_le) simp_all
  also have "\<dots> < uint p" using assms(2) by (simp add: word_less_def)
  finally have "\<not> p \<le> lut_pulses (Suc n)" by (simp add: word_le_def)
  then have "lut_scan p n = lut_scan p (Suc n)"
    using step.hyps assms(1) by (intro scan_skip) simp_all
  with step.IH show ?case by simp
qed

lemma scan_below:
  assumes "p < lut_pulses 0" and "j \<le> 21"
  shows "lut_scan p j = Inr 21"
  using assms(2)
proof (induction j rule: inc_induct)
  case base
  show ?case by (rule scan_end)
next
  case (step n)
  have "uint p < uint (lut_pulses 0)" using assms(1) by (simp add: word_less_def)
  also have "\<dots> \<le> uint (lut_pulses n)" using step.hyps by (intro lut_pulses_le) simp_all
  finally have no: "\<not> lut_pulses n \<le> p" by (simp add: word_le_def)
  show ?case
  proof (cases "n = 20")
    case True
    with no step.IH show ?thesis by (simp add: scan_last)
  next
    case False
    with step.hyps have "n < 20" by simp
    with no have "lut_scan p n = lut_scan p (Suc n)" by (intro scan_skip) simp_all
    with step.IH show ?thesis by simp
  qed
qed

lemma scan_above:
  assumes "lut_pulses 20 < p" and "j \<le> 20"
  shows "lut_scan p j = Inl Out_of_bounds_read"
  using assms(2)
proof (induction j rule: inc_induct)
  case base
  have "lut_pulses 20 \<le> p" using assms(1) by simp
  then show ?case by (simp add: scan_last)
next
  case (step n)
  have "uint (lut_pulses (Suc n)) \<le> uint (lut_pulses 20)"
    using step.hyps by (intro lut_pulses_le) simp_all
  also have "\<dots> < uint p" using assms(1) by (simp add: word_less_def)
  finally have "\<not> p \<le> lut_pulses (Suc n)" by (simp add: word_le_def)
  then have "lut_scan p n = lut_scan p (Suc n)"
    using step.hyps by (intro scan_skip) simp_all
  with step.IH show ?case by simp
qed

lemma lut_pulses_0: "lut_pulses 0 = 26"
  by (simp add: lut_pulses_def lut_def)

lemma lut_pulses_20: "lut_pulses 20 = 3218"
  by (simp add: lut_pulses_def lut_def)

lemma table_below:
  assumes "pulses \<noteq> 0" and "pulses < 26"
  shows "lmt_pulses_to_temperature pulses CONV_TYPE_LUT = Inl Out_of_bounds_read"
proof -
  have "lut_scan pulses 0 = Inr 21" using assms(2) by (intro scan_below) (simp_all add: lut_pulses_0)
  then show ?thesis
    using assms(1)
    by (simp add: lmt_pulses_to_temperature_def CONV_TYPE_EQU_def CONV_TYPE_LUT_def bindF_def
        lut_at_out)
qed

lemma table_above:
  assumes "3218 < pulses"
  shows "lmt_pulses_to_temperature pulses CONV_TYPE_LUT = Inl Out_of_bounds_read"
proof -
  have "lut_scan pulses 0 = Inl Out_of_bounds_read"
    using assms by (intro scan_above) (simp_all add: lut_pulses_20)
  moreover have "pulses \<noteq> 0" using assms by auto
  ultimately show ?thesis
    by (simp add: lmt_pulses_to_temperature_def CONV_TYPE_EQU_def CONV_TYPE_LUT_def bindF_def)
qed


subsection \<open>The interpolation\<close>

lemma to_double_mono: "x \<le> y \<Longrightarrow> to_double x \<le> to_double y"
  unfolding to_double_def by (rule fl_round_mono) simp_all

lemma to_float_mono: "x \<le> y \<Longrightarrow> to_float x \<le> to_float y"
  unfolding to_float_def by (rule fl_round_mono) simp_all

lemma map_c_int:
  assumes "\<bar>v - a\<bar> < 2 ^ 53" and "\<bar>d - c\<bar> < 2 ^ 53" and "\<bar>(v - a) * (d - c)\<bar> < 2 ^ 53"
    and "\<bar>b - a\<bar> < 2 ^ 53" and "b \<noteq> a"
  shows "map_c (of_int v) (of_int a) (of_int b) (of_int c) (of_int d) =
           Inr (to_double (to_double (of_int ((v - a) * (d - c)) / of_int (b - a)) + of_int c))"
proof -
  have s1: "d_sub (of_int v) (of_int a) = of_int (v - a)"
    using to_double_int [OF assms(1)] by (simp add: d_sub_def)
  have s2: "d_sub (of_int d) (of_int c) = of_int (d - c)"
    using to_double_int [OF assms(2)] by (simp add: d_sub_def)
  have m: "d_mul (of_int (v - a)) (of_int (d - c)) = of_int ((v - a) * (d - c))"
    using to_double_int [OF assms(3)] by (simp add: d_mul_def)
  have s3: "d_sub (of_int b) (of_int a) = of_int (b - a)"
    using to_double_int [OF assms(4)] by (simp add: d_sub_def)
  have nz: "(of_int (b - a) :: rat) \<noteq> 0" using assms(5) by simp
  show ?thesis
    unfolding map_c_def s1 s2 m s3
    using nz by (simp only: d_div_def d_add_def bindF_def if_False sum.case)
qed

lemma i16_pulses_exact:
  assumes "i < 21"
  shows "i16_to_double (snd (lut ! i)) = of_int (uint (lut_pulses i))"
proof -
  have "\<bar>uint (lut_pulses i)\<bar> < 2 ^ 53" using lut_row(1,2) [OF assms] by simp
  from to_double_int [OF this] show ?thesis
    by (simp only: i16_to_double_def lut_row(3) [OF assms])
qed

lemma i16_temp_exact:
  assumes "i < 21"
  shows "i16_to_double (fst (lut ! i)) = of_int (sint (fst (lut ! i)))"
proof -
  have "\<bar>sint (fst (lut ! i))\<bar> < 2 ^ 53" using lut_row(4) [OF assms] by simp
  from to_double_int [OF this] show ?thesis
    by (simp only: i16_to_double_def)
qed

lemma segment_value:
  assumes "i < 20"
  shows "bindF (map_c (u32_to_double p) (i16_to_double (snd (lut ! i)))
                 (i16_to_double (snd (lut ! Suc i))) (i16_to_double (fst (lut ! i)))
                 (i16_to_double (fst (lut ! Suc i))))
           (\<lambda>t. Inr (to_float t)) = Inr (lut_interp i (uint p))"
proof -
  define z where "z = uint p"
  define L where "L = uint (lut_pulses i)"
  define L' where "L' = uint (lut_pulses (Suc i))"
  define T where "T = sint (fst (lut ! i))"
  have i: "i < 21" "Suc i < 21" using assms by simp_all
  have z: "0 \<le> z" "z < 2 ^ 32"
    unfolding z_def using uint_lt2p [of p] by simp_all
  have L: "26 \<le> L" "L \<le> 3218" unfolding L_def using lut_row(1,2) [OF i(1)] by simp_all
  have L': "L' \<le> 3218" unfolding L'_def using lut_row(2) [OF i(2)] by simp
  have LL: "L < L'" unfolding L_def L'_def using assms by (intro lut_pulses_less) simp_all
  have T: "\<bar>T\<bar> \<le> 150" unfolding T_def using lut_row(4) [OF i(1)] by simp
  have T': "sint (fst (lut ! Suc i)) = T + 10" unfolding T_def using assms by (rule lut_temp_step)
  have u: "u32_to_double p = of_int z"
    using u32_to_double_exact [OF refl, of p] by (simp add: z_def)
  have a: "i16_to_double (snd (lut ! i)) = of_int L"
    unfolding L_def using i(1) by (rule i16_pulses_exact)
  have b: "i16_to_double (snd (lut ! Suc i)) = of_int L'"
    unfolding L'_def using i(2) by (rule i16_pulses_exact)
  have c: "i16_to_double (fst (lut ! i)) = of_int T"
    unfolding T_def using i(1) by (rule i16_temp_exact)
  have d: "i16_to_double (fst (lut ! Suc i)) = of_int (T + 10)"
    using i16_temp_exact [OF i(2)] by (simp only: T')
  have b1: "\<bar>z - L\<bar> < 2 ^ 53" using z L by simp
  have b2: "\<bar>(T + 10) - T\<bar> < 2 ^ 53" by simp
  have b3: "\<bar>(z - L) * ((T + 10) - T)\<bar> < 2 ^ 53" using z L by simp
  have b4: "\<bar>L' - L\<bar> < 2 ^ 53" using L L' LL by simp
  have b5: "L' \<noteq> L" using LL by simp
  have "map_c (of_int z) (of_int L) (of_int L') (of_int T) (of_int (T + 10)) =
          Inr (to_double (to_double (of_int ((z - L) * 10) / of_int (L' - L)) + of_int T))"
    using map_c_int [OF b1 b2 b3 b4 b5] by simp
  then show ?thesis
    unfolding u a b c d lut_interp_def lut_temp_def
    unfolding z_def [symmetric] L_def [symmetric] L'_def [symmetric] T_def [symmetric]
    by (simp only: bindF_def sum.case)
qed

lemma lut_interp_mono:
  assumes "i < 20" and "x \<le> y"
  shows "lut_interp i x \<le> lut_interp i y"
proof -
  define L where "L = uint (lut_pulses i)"
  define D where "D = uint (lut_pulses (Suc i)) - L"
  have "0 < D" unfolding D_def L_def using lut_pulses_less [of i "Suc i"] assms(1) by simp
  then have Dpos: "(0 :: rat) < of_int D" by simp
  have "(x - L) * 10 \<le> (y - L) * 10" using assms(2) by simp
  then have "(of_int ((x - L) * 10) :: rat) \<le> of_int ((y - L) * 10)"
    by (simp only: of_int_le_iff)
  then have "(of_int ((x - L) * 10) :: rat) / of_int D \<le> of_int ((y - L) * 10) / of_int D"
    using Dpos by (simp only: divide_le_cancel) simp
  then have "to_double (of_int ((x - L) * 10) / of_int D)
               \<le> to_double (of_int ((y - L) * 10) / of_int D)"
    by (rule to_double_mono)
  then have "to_double (of_int ((x - L) * 10) / of_int D) + lut_temp i
               \<le> to_double (of_int ((y - L) * 10) / of_int D) + lut_temp i"
    by simp
  then show ?thesis
    unfolding lut_interp_def L_def [symmetric] D_def [symmetric]
    by (intro to_float_mono to_double_mono)
qed

lemma lut_temp_exact:
  assumes "i < 21"
  shows "to_float (to_double (lut_temp i)) = lut_temp i"
proof -
  have "\<bar>sint (fst (lut ! i))\<bar> < 2 ^ 53" and "\<bar>sint (fst (lut ! i))\<bar> \<le> 2 ^ 24"
    using lut_row(4) [OF assms] by simp_all
  then show ?thesis
    unfolding lut_temp_def by (simp only: to_double_int to_float_int)
qed

lemma lut_interp_lo:
  assumes "i < 20"
  shows "lut_interp i (uint (lut_pulses i)) = lut_temp i"
proof -
  have "to_double 0 = 0" by (simp add: to_double_def fl_round_0)
  then show ?thesis
    using lut_temp_exact [of i] assms by (simp add: lut_interp_def)
qed

lemma lut_interp_hi:
  assumes "i < 20"
  shows "lut_interp i (uint (lut_pulses (Suc i))) = lut_temp (Suc i)"
proof -
  define D where "D = uint (lut_pulses (Suc i)) - uint (lut_pulses i)"
  have "0 < D" unfolding D_def using lut_pulses_less [of i "Suc i"] assms(1) by simp
  then have "(of_int (D * 10) :: rat) / of_int D = of_int 10" by simp
  moreover have "to_double (of_int 10) = of_int 10" by (rule to_double_int) simp
  moreover have "of_int 10 + lut_temp i = lut_temp (Suc i)"
    using lut_temp_step [OF assms] by (simp add: lut_temp_def)
  moreover have "to_float (to_double (lut_temp (Suc i))) = lut_temp (Suc i)"
    using assms by (intro lut_temp_exact) simp
  ultimately show ?thesis
    unfolding lut_interp_def D_def [symmetric] by (simp only:)
qed


lemma table_segment:
  assumes "i < 20" and "lut_pulses i \<le> p" and "p \<le> lut_pulses (Suc i)"
  shows "lmt_pulses_to_temperature p CONV_TYPE_LUT = Inr (lut_interp i (uint p))"
proof -
  have i: "i < 21" "Suc i < 21" using assms(1) by simp_all
  have "26 \<le> uint p" using lut_row(1) [OF i(1)] assms(2) by (simp add: word_le_def)
  then have nz: "p \<noteq> 0" by auto
  have run: "lmt_pulses_to_temperature p CONV_TYPE_LUT = Inr (lut_interp k (uint p))"
    if "k < 20" and "lut_scan p 0 = Inr k" for k
    using nz that segment_value [of k p]
    by (simp add: lmt_pulses_to_temperature_def CONV_TYPE_EQU_def CONV_TYPE_LUT_def
        bindF_def lut_at_in)
  show ?thesis
  proof (cases "lut_pulses i < p")
    case True
    then have "lut_scan p 0 = Inr i" using assms by (intro scan_segment) simp_all
    with assms(1) show ?thesis by (rule run)
  next
    case False
    with assms(2) have p: "p = lut_pulses i" by simp
    show ?thesis
    proof (cases i)
      case 0
      have "lut_scan p 0 = Inr 0" using assms unfolding 0 by (intro scan_hit) simp_all
      then show ?thesis using run [of 0] by (simp add: 0)
    next
      case (Suc k)
      have k: "k < 20" using assms(1) Suc by simp
      have "uint (lut_pulses k) < uint (lut_pulses (Suc k))"
        using k by (intro lut_pulses_less) simp_all
      then have "lut_pulses k < p" unfolding p Suc by (simp add: word_less_def)
      then have "lut_scan p 0 = Inr k" using k unfolding p Suc by (intro scan_segment) simp_all
      with k have "lmt_pulses_to_temperature p CONV_TYPE_LUT = Inr (lut_interp k (uint p))"
        by (rule run)
      also have "lut_interp k (uint p) = lut_temp (Suc k)"
        unfolding p Suc using k by (rule lut_interp_hi)
      also have "\<dots> = lut_interp i (uint p)"
        unfolding p using assms(1) by (simp only: Suc [symmetric] lut_interp_lo)
      finally show ?thesis .
    qed
  qed
qed

text \<open>
  Between the first and the last pulse count of the table the conversion is defined,
  and its result lies between the first and the last temperature of the table.
\<close>

lemma segment_exists:
  assumes "k \<le> 20" and "k \<noteq> 0" and "lut_pulses 0 \<le> p" and "p \<le> lut_pulses k"
  shows "\<exists>i<k. lut_pulses i \<le> p \<and> p \<le> lut_pulses (Suc i)"
  using assms
proof (induction k)
  case 0
  then show ?case by simp
next
  case (Suc m)
  show ?case
  proof (cases "lut_pulses m \<le> p")
    case True
    with Suc.prems(4) show ?thesis by blast
  next
    case False
    then have le: "p \<le> lut_pulses m" by simp
    from False Suc.prems(3) have "m \<noteq> 0" by (cases m) auto
    with Suc.IH le Suc.prems(1,3) obtain i where "i < m" "lut_pulses i \<le> p" "p \<le> lut_pulses (Suc i)"
      by auto
    then show ?thesis by (auto intro: less_SucI)
  qed
qed

lemma lut_temp_range:
  assumes "i < 21"
  shows "- 50 \<le> lut_temp i" and "lut_temp i \<le> 150"
proof -
  have "\<bar>sint (fst (lut ! i))\<bar> \<le> 150" using assms by (rule lut_row(4))
  then have "- 150 \<le> sint (fst (lut ! i))" and u: "sint (fst (lut ! i)) \<le> 150" by simp_all
  from u have "(of_int (sint (fst (lut ! i))) :: rat) \<le> of_int 150" by (simp only: of_int_le_iff)
  then show "lut_temp i \<le> 150" by (simp add: lut_temp_def)
  have "list_all (\<lambda>a. - 50 \<le> sint (fst a)) lut" by (simp add: lut_def)
  with assms have "- 50 \<le> sint (fst (lut ! i))" by (simp add: list_all_length lut_length)
  then have "(of_int (- 50) :: rat) \<le> of_int (sint (fst (lut ! i)))" by (simp only: of_int_le_iff)
  then show "- 50 \<le> lut_temp i" by (simp add: lut_temp_def)
qed

lemma table_in_range:
  assumes "26 \<le> pulses" and "pulses \<le> 3218"
  shows "\<exists>t. lmt_pulses_to_temperature pulses CONV_TYPE_LUT = Inr t \<and> - 50 \<le> t \<and> t \<le> 150"
proof -
  have "\<exists>i<20. lut_pulses i \<le> pulses \<and> pulses \<le> lut_pulses (Suc i)"
    using assms by (intro segment_exists) (simp_all add: lut_pulses_0 lut_pulses_20)
  then obtain i where i: "i < 20" and lo: "lut_pulses i \<le> pulses"
    and hi: "pulses \<le> lut_pulses (Suc i)" by blast
  have v: "lmt_pulses_to_temperature pulses CONV_TYPE_LUT = Inr (lut_interp i (uint pulses))"
    using i lo hi by (rule table_segment)
  have "lut_interp i (uint (lut_pulses i)) \<le> lut_interp i (uint pulses)"
    using i lo by (intro lut_interp_mono) (simp_all add: word_le_def)
  then have "lut_temp i \<le> lut_interp i (uint pulses)" using i by (simp add: lut_interp_lo)
  moreover have "- 50 \<le> lut_temp i" using i by (intro lut_temp_range) simp
  ultimately have a: "- 50 \<le> lut_interp i (uint pulses)" by simp
  have "lut_interp i (uint pulses) \<le> lut_interp i (uint (lut_pulses (Suc i)))"
    using i hi by (intro lut_interp_mono) (simp_all add: word_le_def)
  then have "lut_interp i (uint pulses) \<le> lut_temp (Suc i)" using i by (simp add: lut_interp_hi)
  moreover have "lut_temp (Suc i) \<le> 150" using i by (intro lut_temp_range) simp
  ultimately have b: "lut_interp i (uint pulses) \<le> 150" by simp
  from v a b show ?thesis by simp
qed

text \<open>
  C1. For a nonzero pulse count below 26 or above 3218 the specification asks for an
  out-of-range error, and never a temperature derived from a read past the last
  anchor. \<open>lmt_pulses_to_temperature\<close> has no such check. Above 3218 the loop
  reaches \<open>i = 20\<close> and evaluates \<open>lut[21][1]\<close>; below 26 it ends with \<open>i = 21\<close> and
  the call of \<open>map\<close> evaluates \<open>lut[21]\<close> and \<open>lut[22]\<close>. Both read beyond the 21 rows
  of \<open>lut\<close>: at 3219 and at 25 pulses the conversion has no defined result.
\<close>

theorem table_reads_past_last_row:
  "lmt_pulses_to_temperature 3219 CONV_TYPE_LUT = Inl Out_of_bounds_read \<and>
   lmt_pulses_to_temperature 25 CONV_TYPE_LUT = Inl Out_of_bounds_read"
proof
  show "lmt_pulses_to_temperature 3219 CONV_TYPE_LUT = Inl Out_of_bounds_read"
    by (rule table_above) simp
  show "lmt_pulses_to_temperature 25 CONV_TYPE_LUT = Inl Out_of_bounds_read"
    by (rule table_below) simp_all
qed

text \<open>
  C4. At the pulse count of each of the 21 rows of the table, the table method returns
  exactly the temperature of that row.
\<close>

theorem table_exact_at_anchors:
  "i < LEN_lut \<Longrightarrow> lmt_pulses_to_temperature (lut_pulses i) CONV_TYPE_LUT = Inr (lut_temp i)"
proof -
  assume "i < LEN_lut"
  then have i: "i < 21" by (simp add: LEN_lut_21)
  show ?thesis
  proof (cases "i < 20")
    case True
    have "uint (lut_pulses i) \<le> uint (lut_pulses (Suc i))"
      using True by (intro lut_pulses_le) simp_all
    then have "lut_pulses i \<le> lut_pulses (Suc i)" by (simp add: word_le_def)
    with True show ?thesis
      using table_segment [of i "lut_pulses i"] by (simp add: lut_interp_lo)
  next
    case False
    with i have i20: "i = Suc 19" by simp
    have "uint (lut_pulses 19) \<le> uint (lut_pulses (Suc 19))"
      by (intro lut_pulses_le) simp_all
    then have "lut_pulses 19 \<le> lut_pulses (Suc 19)" by (simp add: word_le_def)
    moreover have "lut_interp 19 (uint (lut_pulses (Suc 19))) = lut_temp (Suc 19)"
      by (rule lut_interp_hi) simp
    ultimately show ?thesis
      unfolding i20 using table_segment [of 19 "lut_pulses (Suc 19)"] by simp
  qed
qed

theorem table_exact_at_anchors_witness:
  "11 < LEN_lut \<and> lut_pulses 11 = 1762 \<and> lut_temp 11 = 60 \<and>
   lmt_pulses_to_temperature 1762 CONV_TYPE_LUT = Inr 60"
  using table_exact_at_anchors [of 11]
  by (simp add: LEN_lut_21 lut_pulses_def lut_temp_def lut_def)

text \<open>
  C5. For two pulse counts \<open>p1 \<le> p2\<close> between the pulse counts of two adjacent rows
  of the table, both conversions by table return a temperature, and the one for
  \<open>p1\<close> is not above the one for \<open>p2\<close>.
\<close>

theorem table_monotone:
  "Suc i < LEN_lut \<Longrightarrow> lut_pulses i \<le> p1 \<Longrightarrow> p1 \<le> p2 \<Longrightarrow> p2 \<le> lut_pulses (Suc i) \<Longrightarrow>
     temp_le (lmt_pulses_to_temperature p1 CONV_TYPE_LUT)
             (lmt_pulses_to_temperature p2 CONV_TYPE_LUT)"
proof -
  assume "Suc i < LEN_lut" and lo: "lut_pulses i \<le> p1" and le: "p1 \<le> p2"
    and hi: "p2 \<le> lut_pulses (Suc i)"
  then have i: "i < 20" by (simp add: LEN_lut_21)
  have 1: "lmt_pulses_to_temperature p1 CONV_TYPE_LUT = Inr (lut_interp i (uint p1))"
    using i lo le hi by (intro table_segment) simp_all
  have 2: "lmt_pulses_to_temperature p2 CONV_TYPE_LUT = Inr (lut_interp i (uint p2))"
    using i lo le hi by (intro table_segment) simp_all
  have "uint p1 \<le> uint p2" using le by (simp add: word_le_def)
  with i have "lut_interp i (uint p1) \<le> lut_interp i (uint p2)" by (rule lut_interp_mono)
  then show ?thesis by (simp add: 1 2 temp_le_def)
qed

theorem table_monotone_witness:
  "Suc 11 < LEN_lut \<and> lut_pulses 11 \<le> 1800 \<and> (1800 :: u32) \<le> 1900 \<and>
   1900 \<le> lut_pulses (Suc 11) \<and>
   temp_le (lmt_pulses_to_temperature 1800 CONV_TYPE_LUT)
           (lmt_pulses_to_temperature 1900 CONV_TYPE_LUT)"
proof -
  have h: "Suc 11 < LEN_lut" "lut_pulses 11 \<le> 1800" "(1800 :: u32) \<le> 1900"
    "1900 \<le> lut_pulses (Suc 11)"
    by (simp_all add: LEN_lut_21 lut_pulses_def lut_def)
  from table_monotone [OF h] h show ?thesis by simp
qed

section \<open>The timer\<close>

subsection \<open>Counting windows and the wait loop\<close>

lemma null_ptr_check_complete: "null_ptr_check (Some d) = LMT_OK \<longleftrightarrow> complete d"
  by (simp add: null_ptr_check_def complete_def)

lemma count_pulses_window:
  assumes "start_timer d = Some start" and "stop_timer d = Some stop"
    and "set_timer_cnt d = Some set_cnt" and "get_timer_cnt d = Some get_cnt"
    and "delay_ms d = Some delay"
  shows "count_pulses_ms d period hw =
           Inr (window (timer d) start stop set_cnt get_cnt delay period hw)"
  by (simp add: count_pulses_ms_def call_def bindF_def window_def assms)

lemma count_pulses_probe:
  assumes "complete d"
  shows "count_pulses_ms d period hw = Inr (probe d period hw)"
proof -
  from assms obtain start stop set_cnt get_cnt delay
    where f: "start_timer d = Some start" "stop_timer d = Some stop"
      "set_timer_cnt d = Some set_cnt" "get_timer_cnt d = Some get_cnt"
      "delay_ms d = Some delay"
    by (auto simp: complete_def Option.is_none_def)
  show ?thesis
    unfolding probe_def by (simp add: count_pulses_window [OF f])
qed

lemma wait_state_shift:
  "wait_state d hw (Suc k) = wait_state d (snd (probe d 10 hw)) k"
  by (induction k) simp_all

lemma wait_count_shift:
  "wait_count d hw (Suc k) = wait_count d (snd (probe d 10 hw)) k"
  unfolding wait_count_def by (simp only: wait_state_shift)

lemma wait_idle_step:
  assumes "complete d"
  shows "wait_idle d hw =
           (if fst (probe d 10 hw) \<noteq> 0 then wait_idle d (snd (probe d 10 hw))
            else Some (Inr (snd (probe d 10 hw))))"
  by (subst wait_idle.simps) (simp add: count_pulses_probe [OF assms] split: prod.splits)

lemma wait_idle_returns:
  assumes "complete d" and "wait_idle d hw = Some r"
  shows "\<exists>k. wait_count d hw k = 0"
proof -
  have "complete d \<longrightarrow> (\<exists>k. wait_count d hw k = 0)"
    using assms(2)
  proof (rule wait_idle.raw_induct
      [where P = "\<lambda>d hw r. complete d \<longrightarrow> (\<exists>k. wait_count d hw k = 0)", rotated])
    fix f and d' :: "('a, 'b) lmt01_dev" and hw' :: 'b and r'
    assume IH: "\<And>a b y. f a b = Some y \<Longrightarrow> complete a \<longrightarrow> (\<exists>k. wait_count a b k = 0)"
      and step: "(case count_pulses_ms d' 10 hw' of
                    Inl e \<Rightarrow> Some (Inl e)
                  | Inr (n, hw'') \<Rightarrow> if n \<noteq> 0 then f d' hw'' else Some (Inr hw'')) = Some r'"
    show "complete d' \<longrightarrow> (\<exists>k. wait_count d' hw' k = 0)"
    proof
      assume c: "complete d'"
      show "\<exists>k. wait_count d' hw' k = 0"
      proof (cases "fst (probe d' 10 hw') = 0")
        case True
        then have "wait_count d' hw' 0 = 0" by (simp add: wait_count_def)
        then show ?thesis ..
      next
        case False
        with step have "f d' (snd (probe d' 10 hw')) = Some r'"
          by (simp add: count_pulses_probe [OF c] split: prod.splits)
        from IH [OF this] c obtain k where "wait_count d' (snd (probe d' 10 hw')) k = 0"
          by blast
        then have "wait_count d' hw' (Suc k) = 0" by (simp only: wait_count_shift)
        then show ?thesis ..
      qed
    qed
  qed
  with assms(1) show ?thesis by simp
qed

lemma wait_idle_spins:
  assumes "complete d" and "\<forall>k. wait_count d hw k \<noteq> 0"
  shows "wait_idle d hw = None"
proof (cases "wait_idle d hw")
  case None
  then show ?thesis .
next
  case (Some r)
  from wait_idle_returns [OF assms(1) Some] assms(2) show ?thesis by blast
qed

lemma wait_idle_stops:
  assumes "complete d" and "\<forall>j<k. wait_count d hw j \<noteq> 0" and "wait_count d hw k = 0"
  shows "wait_idle d hw = Some (Inr (wait_state d hw (Suc k)))"
  using assms(2,3)
proof (induction k arbitrary: hw)
  case 0
  then show ?case
    by (subst wait_idle_step [OF assms(1)]) (simp add: wait_count_def)
next
  case (Suc k)
  from Suc.prems(1) have first: "fst (probe d 10 hw) \<noteq> 0"
    by (auto simp: wait_count_def dest: spec [of _ 0])
  have "\<forall>j<k. wait_count d (snd (probe d 10 hw)) j \<noteq> 0"
    using Suc.prems(1) by (auto simp: wait_count_shift [symmetric])
  moreover have "wait_count d (snd (probe d 10 hw)) k = 0"
    using Suc.prems(2) by (simp only: wait_count_shift)
  ultimately have "wait_idle d (snd (probe d 10 hw)) =
      Some (Inr (wait_state d (snd (probe d 10 hw)) (Suc k)))"
    by (rule Suc.IH)
  then have rest: "wait_idle d (snd (probe d 10 hw)) = Some (Inr (wait_state d hw (Suc (Suc k))))"
    by (simp only: wait_state_shift [symmetric])
  have "wait_idle d hw = wait_idle d (snd (probe d 10 hw))"
    using first by (subst wait_idle_step [OF assms(1)]) simp
  with rest show ?case by (simp only:)
qed

lemma pulse_count_failure_writes_nothing:
  assumes "lmt_get_pulse_count dev hw = Some (Inr (st, w, hw'))" and "st \<noteq> LMT_OK"
  shows "w = None"
  using assms
  by (auto simp: lmt_get_pulse_count_def split: if_splits option.splits sum.splits prod.splits)

lemma pulse_count_ok_stores_nonzero:
  assumes "lmt_get_pulse_count dev hw = Some (Inr (LMT_OK, w, hw'))"
  shows "\<exists>p. w = Some p \<and> p \<noteq> 0"
  using assms
  by (auto simp: lmt_get_pulse_count_def split: if_splits option.splits sum.splits prod.splits)

subsection \<open>Runs of the example timer\<close>

lemma fake_window:
  "window () fake_start fake_stop fake_set_cnt fake_get_cnt fake_delay period hw =
     (case script hw of
        [] \<Rightarrow> (idle hw, hw\<lparr>cnt := idle hw,
                 trace := trace hw @ [Stop, Set_cnt 0, Start, Delay period, Stop, Get_cnt]\<rparr>)
      | n # ns \<Rightarrow> (n, hw\<lparr>cnt := n, script := ns,
                 trace := trace hw @ [Stop, Set_cnt 0, Start, Delay period, Stop, Get_cnt]\<rparr>))"
  by (simp add: window_def fake_start_def fake_stop_def fake_set_cnt_def fake_get_cnt_def
      fake_delay_def split: list.splits)

lemma fake_complete: "complete fake_dev"
  by (simp add: complete_def fake_dev_def)

lemma fake_probe:
  "probe fake_dev period hw =
     (case script hw of
        [] \<Rightarrow> (idle hw, hw\<lparr>cnt := idle hw,
                 trace := trace hw @ [Stop, Set_cnt 0, Start, Delay period, Stop, Get_cnt]\<rparr>)
      | n # ns \<Rightarrow> (n, hw\<lparr>cnt := n, script := ns,
                 trace := trace hw @ [Stop, Set_cnt 0, Start, Delay period, Stop, Get_cnt]\<rparr>))"
proof -
  have f: "start_timer fake_dev = Some fake_start" "stop_timer fake_dev = Some fake_stop"
    "set_timer_cnt fake_dev = Some fake_set_cnt" "get_timer_cnt fake_dev = Some fake_get_cnt"
    "delay_ms fake_dev = Some fake_delay"
    by (simp_all add: fake_dev_def)
  have "timer fake_dev = ()" by simp
  then show ?thesis
    unfolding probe_def by (simp add: count_pulses_window [OF f] fake_window)
qed

lemma fake_idle_state:
  "script hw = [] \<Longrightarrow>
     script (wait_state fake_dev hw k) = [] \<and> idle (wait_state fake_dev hw k) = idle hw"
  by (induction k) (simp_all add: fake_probe)

lemma fake_busy: "wait_count fake_dev (fake_init [] 5) k = 5"
  using fake_idle_state [of "fake_init [] 5" k]
  by (simp add: wait_count_def fake_probe fake_init_def)

lemma fake_busy_run: "lmt_get_pulse_count (Some fake_dev) (fake_init [] 5) = None"
proof -
  have "\<forall>k. wait_count fake_dev (fake_init [] 5) k \<noteq> 0" by (simp add: fake_busy)
  with fake_complete have "wait_idle fake_dev (fake_init [] 5) = None" by (rule wait_idle_spins)
  then show ?thesis
    using fake_complete by (simp add: lmt_get_pulse_count_def null_ptr_check_complete)
qed

lemma fake_run:
  assumes "wait_count fake_dev hw 0 = 0"
  shows "lmt_get_pulse_count (Some fake_dev) hw =
     (case count_pulses_ms fake_dev 104 (wait_state fake_dev hw (Suc 0)) of
        Inl e \<Rightarrow> Some (Inl e)
      | Inr (pulse_count, hw2) \<Rightarrow>
          if pulse_count = 0 then Some (Inr (LMT_E_DEV_NOT_FOUND, None, hw2))
          else Some (Inr (LMT_OK, Some pulse_count, hw2)))"
proof -
  have "wait_idle fake_dev hw = Some (Inr (wait_state fake_dev hw (Suc 0)))"
    using fake_complete _ assms by (rule wait_idle_stops) simp
  then show ?thesis
    using fake_complete by (simp add: lmt_get_pulse_count_def null_ptr_check_complete)
qed

lemma fake_absent_run:
  "lmt_get_pulse_count (Some fake_dev) (fake_init [] 0) =
     Some (Inr (LMT_E_DEV_NOT_FOUND, None,
       \<lparr>cnt = 0, script = [], idle = 0,
        trace = [Stop, Set_cnt 0, Start, Delay 10, Stop, Get_cnt] @
                [Stop, Set_cnt 0, Start, Delay 104, Stop, Get_cnt]\<rparr>))"
proof -
  have "wait_count fake_dev (fake_init [] 0) 0 = 0"
    by (simp add: wait_count_def fake_probe fake_init_def)
  from fake_run [OF this] show ?thesis
    by (simp add: count_pulses_probe [OF fake_complete] fake_probe fake_init_def)
qed

lemma fake_good_run:
  "lmt_get_pulse_count (Some fake_dev) (fake_init [0, 1762] 0) =
     Some (Inr (LMT_OK, Some 1762,
       \<lparr>cnt = 1762, script = [], idle = 0,
        trace = [Stop, Set_cnt 0, Start, Delay 10, Stop, Get_cnt] @
                [Stop, Set_cnt 0, Start, Delay 104, Stop, Get_cnt]\<rparr>))"
proof -
  have "wait_count fake_dev (fake_init [0, 1762] 0) 0 = 0"
    by (simp add: wait_count_def fake_probe fake_init_def)
  from fake_run [OF this] show ?thesis
    by (simp add: count_pulses_probe [OF fake_complete] fake_probe fake_init_def)
qed

lemma table_1762: "lmt_pulses_to_temperature 1762 CONV_TYPE_LUT = Inr 60"
proof -
  have lo: "lut_pulses 10 \<le> 1762" and hi: "lut_pulses 11 = 1762" and t: "lut_temp 11 = 60"
    by (simp_all add: lut_pulses_def lut_temp_def lut_def)
  have "lmt_pulses_to_temperature 1762 CONV_TYPE_LUT = Inr (lut_interp 10 (uint (1762 :: u32)))"
    using lo hi by (intro table_segment) simp_all
  moreover have "lut_interp 10 (uint (lut_pulses (Suc 10))) = lut_temp (Suc 10)"
    by (rule lut_interp_hi) simp
  ultimately show ?thesis using hi t by simp
qed

section \<open>The public functions\<close>

text \<open>
  C6. \<open>lmt_init\<close> returns \<open>LMT_E_NULL_PTR\<close>, without touching the timer, when the
  device pointer is null or any one of the five function pointers (start, stop, set
  count, get count, delay) is null.
\<close>

theorem init_missing_capability:
  "dev = None \<or>
   (\<exists>d. dev = Some d \<and>
      (start_timer d = None \<or> stop_timer d = None \<or> set_timer_cnt d = None \<or>
       get_timer_cnt d = None \<or> delay_ms d = None)) \<Longrightarrow>
   lmt_init dev hw = Inr (LMT_E_NULL_PTR, hw)"
  by (auto simp: lmt_init_def null_ptr_check_def)

theorem init_missing_capability_witness:
  "delay_ms (fake_dev\<lparr>delay_ms := None\<rparr>) = None \<and>
   lmt_init (Some (fake_dev\<lparr>delay_ms := None\<rparr>)) (fake_init [5] 0) =
     Inr (LMT_E_NULL_PTR, fake_init [5] 0)"
  using init_missing_capability [of "Some (fake_dev\<lparr>delay_ms := None\<rparr>)" "fake_init [5] 0"]
  by simp

text \<open>
  C7. With all five function pointers set, \<open>lmt_init\<close> runs exactly one counting
  window, of 60 ms (stop, reset, start, delay 60, stop, read); it returns
  \<open>LMT_E_DEV_NOT_FOUND\<close> when the count read is zero and \<open>LMT_OK\<close> otherwise. Its
  only effect is that of the six calls on the timer: the driver keeps no state.
\<close>

theorem init_one_window:
  assumes "start_timer d = Some start" and "stop_timer d = Some stop"
    and "set_timer_cnt d = Some set_cnt" and "get_timer_cnt d = Some get_cnt"
    and "delay_ms d = Some delay"
  shows "lmt_init (Some d) hw =
           Inr (if fst (window (timer d) start stop set_cnt get_cnt delay 60 hw) = 0
                then LMT_E_DEV_NOT_FOUND else LMT_OK,
                snd (window (timer d) start stop set_cnt get_cnt delay 60 hw))"
proof -
  have "null_ptr_check (Some d) = LMT_OK"
    by (simp add: null_ptr_check_def assms)
  then show ?thesis
    by (simp add: lmt_init_def count_pulses_window [OF assms] bindF_def split: prod.splits)
qed

theorem init_one_window_witness:
  "lmt_init (Some fake_dev) (fake_init [5] 0) =
     Inr (LMT_OK, \<lparr>cnt = 5, script = [], idle = 0,
                   trace = [Stop, Set_cnt 0, Start, Delay 60, Stop, Get_cnt]\<rparr>) \<and>
   lmt_init (Some fake_dev) (fake_init [] 0) =
     Inr (LMT_E_DEV_NOT_FOUND, \<lparr>cnt = 0, script = [], idle = 0,
                   trace = [Stop, Set_cnt 0, Start, Delay 60, Stop, Get_cnt]\<rparr>)"
proof -
  have f: "start_timer fake_dev = Some fake_start" "stop_timer fake_dev = Some fake_stop"
    "set_timer_cnt fake_dev = Some fake_set_cnt" "get_timer_cnt fake_dev = Some fake_get_cnt"
    "delay_ms fake_dev = Some fake_delay"
    by (simp_all add: fake_dev_def)
  have t: "timer fake_dev = ()" by simp
  show ?thesis
    using init_one_window [OF f, of "fake_init [5] 0"] init_one_window [OF f, of "fake_init [] 0"]
    by (simp add: t fake_window fake_init_def)
qed

text \<open>
  C9. For a device with all five function pointers set: if every 10 ms window of the
  wait loop counts a pulse, \<open>lmt_get_pulse_count\<close> never returns; and once a 10 ms
  window counts none, exactly one 104 ms window follows, with \<open>LMT_E_DEV_NOT_FOUND\<close>
  and nothing stored when it counts no pulse, and \<open>LMT_OK\<close> and its count stored
  otherwise.
\<close>

theorem pulse_count_wait_then_measure:
  assumes "complete d"
  shows "((\<forall>k. wait_count d hw k \<noteq> 0) \<longrightarrow> lmt_get_pulse_count (Some d) hw = None) \<and>
         (\<forall>k. (\<forall>j<k. wait_count d hw j \<noteq> 0) \<and> wait_count d hw k = 0 \<longrightarrow>
            lmt_get_pulse_count (Some d) hw =
              Some (Inr (if fst (probe d 104 (wait_state d hw (Suc k))) = 0
                         then (LMT_E_DEV_NOT_FOUND, None,
                               snd (probe d 104 (wait_state d hw (Suc k))))
                         else (LMT_OK, Some (fst (probe d 104 (wait_state d hw (Suc k)))),
                               snd (probe d 104 (wait_state d hw (Suc k)))))))"
proof (intro conjI impI allI)
  have ok: "null_ptr_check (Some d) = LMT_OK"
    using assms by (simp add: null_ptr_check_complete)
  {
    assume "\<forall>k. wait_count d hw k \<noteq> 0"
    with assms have "wait_idle d hw = None" by (rule wait_idle_spins)
    then show "lmt_get_pulse_count (Some d) hw = None"
      by (simp add: lmt_get_pulse_count_def ok)
  }
  {
    fix k
    assume "(\<forall>j<k. wait_count d hw j \<noteq> 0) \<and> wait_count d hw k = 0"
    with assms have "wait_idle d hw = Some (Inr (wait_state d hw (Suc k)))"
      by (intro wait_idle_stops) simp_all
    then show "lmt_get_pulse_count (Some d) hw =
              Some (Inr (if fst (probe d 104 (wait_state d hw (Suc k))) = 0
                         then (LMT_E_DEV_NOT_FOUND, None,
                               snd (probe d 104 (wait_state d hw (Suc k))))
                         else (LMT_OK, Some (fst (probe d 104 (wait_state d hw (Suc k)))),
                               snd (probe d 104 (wait_state d hw (Suc k))))))"
      by (simp add: lmt_get_pulse_count_def ok count_pulses_probe [OF assms] split: prod.splits)
  }
qed

theorem pulse_count_wait_then_measure_witness:
  "complete fake_dev \<and>
   (\<forall>k. wait_count fake_dev (fake_init [] 5) k \<noteq> 0) \<and>
   lmt_get_pulse_count (Some fake_dev) (fake_init [] 5) = None \<and>
   wait_count fake_dev (fake_init [7, 0, 1762] 0) 0 \<noteq> 0 \<and>
   wait_count fake_dev (fake_init [7, 0, 1762] 0) 1 = 0 \<and>
   lmt_get_pulse_count (Some fake_dev) (fake_init [7, 0, 1762] 0) =
     Some (Inr (LMT_OK, Some 1762,
       \<lparr>cnt = 1762, script = [], idle = 0,
        trace = [Stop, Set_cnt 0, Start, Delay 10, Stop, Get_cnt] @
                [Stop, Set_cnt 0, Start, Delay 10, Stop, Get_cnt] @
                [Stop, Set_cnt 0, Start, Delay 104, Stop, Get_cnt]\<rparr>))"
proof -
  have busy: "\<forall>k. wait_count fake_dev (fake_init [] 5) k \<noteq> 0" by (simp add: fake_busy)
  have first: "wait_count fake_dev (fake_init [7, 0, 1762] 0) 0 \<noteq> 0"
    by (simp add: wait_count_def fake_probe fake_init_def)
  then have w0: "\<forall>j<1. wait_count fake_dev (fake_init [7, 0, 1762] 0) j \<noteq> 0"
    by simp
  have w1: "wait_count fake_dev (fake_init [7, 0, 1762] 0) 1 = 0"
    by (simp add: wait_count_def fake_probe fake_init_def)
  note main = pulse_count_wait_then_measure [OF fake_complete]
  from main [of "fake_init [] 5"] busy
  have a: "lmt_get_pulse_count (Some fake_dev) (fake_init [] 5) = None" by blast
  from main [of "fake_init [7, 0, 1762] 0"] w0 w1
  have "lmt_get_pulse_count (Some fake_dev) (fake_init [7, 0, 1762] 0) =
      Some (Inr (if fst (probe fake_dev 104 (wait_state fake_dev (fake_init [7, 0, 1762] 0) (Suc 1))) = 0
                 then (LMT_E_DEV_NOT_FOUND, None,
                       snd (probe fake_dev 104 (wait_state fake_dev (fake_init [7, 0, 1762] 0) (Suc 1))))
                 else (LMT_OK, Some (fst (probe fake_dev 104 (wait_state fake_dev (fake_init [7, 0, 1762] 0) (Suc 1)))),
                       snd (probe fake_dev 104 (wait_state fake_dev (fake_init [7, 0, 1762] 0) (Suc 1))))))"
    by blast
  then have b: "lmt_get_pulse_count (Some fake_dev) (fake_init [7, 0, 1762] 0) =
     Some (Inr (LMT_OK, Some 1762,
       \<lparr>cnt = 1762, script = [], idle = 0,
        trace = [Stop, Set_cnt 0, Start, Delay 10, Stop, Get_cnt] @
                [Stop, Set_cnt 0, Start, Delay 10, Stop, Get_cnt] @
                [Stop, Set_cnt 0, Start, Delay 104, Stop, Get_cnt]\<rparr>))"
    by (simp add: fake_probe fake_init_def)
  from fake_complete busy a first w1 b show ?thesis by (intro conjI)
qed

text \<open>
  What \<open>lmt_get_temperature\<close> does with the outcomes of its two stages. It calls
  \<open>lmt_get_pulse_count\<close> once and then converts. A status other than \<open>LMT_OK\<close> of
  \<open>lmt_get_pulse_count\<close> is returned as it is, with the hardware as that one call left
  it (no second attempt) and nothing stored in \<open>*temp\<close>; when \<open>lmt_get_pulse_count\<close>
  does not return, neither does \<open>lmt_get_temperature\<close>. After a successful count the
  result of the conversion is stored and \<open>LMT_OK\<close> returned, with no check in between:
  where the conversion has no defined result, neither has \<open>lmt_get_temperature\<close>.
  Conversely a status other than \<open>LMT_OK\<close> of \<open>lmt_get_temperature\<close> is always the one
  of \<open>lmt_get_pulse_count\<close>, and nothing was stored.
\<close>

lemma temperature_composition:
  "(lmt_get_pulse_count dev hw = None \<longrightarrow> lmt_get_temperature dev type hw = None) \<and>
   (\<forall>st w hw'. lmt_get_pulse_count dev hw = Some (Inr (st, w, hw')) \<and> st \<noteq> LMT_OK \<longrightarrow>
      lmt_get_temperature dev type hw = Some (Inr (st, None, hw'))) \<and>
   (\<forall>p hw' t. lmt_get_pulse_count dev hw = Some (Inr (LMT_OK, Some p, hw')) \<and>
      lmt_pulses_to_temperature p type = Inr t \<longrightarrow>
      lmt_get_temperature dev type hw = Some (Inr (LMT_OK, Some t, hw'))) \<and>
   (\<forall>p hw' e. lmt_get_pulse_count dev hw = Some (Inr (LMT_OK, Some p, hw')) \<and>
      lmt_pulses_to_temperature p type = Inl e \<longrightarrow>
      lmt_get_temperature dev type hw = Some (Inl e)) \<and>
   (\<forall>st t hw'. lmt_get_temperature dev type hw = Some (Inr (st, t, hw')) \<and> st \<noteq> LMT_OK \<longrightarrow>
      t = None \<and> lmt_get_pulse_count dev hw = Some (Inr (st, None, hw')))"
proof (intro conjI allI impI)
  assume "lmt_get_pulse_count dev hw = None"
  then show "lmt_get_temperature dev type hw = None"
    by (simp add: lmt_get_temperature_def)
next
  fix st w hw'
  assume "lmt_get_pulse_count dev hw = Some (Inr (st, w, hw')) \<and> st \<noteq> LMT_OK"
  then show "lmt_get_temperature dev type hw = Some (Inr (st, None, hw'))"
    by (simp add: lmt_get_temperature_def)
next
  fix p hw' t
  assume "lmt_get_pulse_count dev hw = Some (Inr (LMT_OK, Some p, hw')) \<and>
      lmt_pulses_to_temperature p type = Inr t"
  then show "lmt_get_temperature dev type hw = Some (Inr (LMT_OK, Some t, hw'))"
    by (simp add: lmt_get_temperature_def)
next
  fix p hw' e
  assume "lmt_get_pulse_count dev hw = Some (Inr (LMT_OK, Some p, hw')) \<and>
      lmt_pulses_to_temperature p type = Inl e"
  then show "lmt_get_temperature dev type hw = Some (Inl e)"
    by (simp add: lmt_get_temperature_def)
next
  fix st t hw'
  assume a: "lmt_get_temperature dev type hw = Some (Inr (st, t, hw')) \<and> st \<noteq> LMT_OK"
  then obtain w where "lmt_get_pulse_count dev hw = Some (Inr (st, w, hw'))" and "t = None"
    by (auto simp: lmt_get_temperature_def split: option.splits sum.splits prod.splits if_splits)
  moreover from this a have "w = None" by (auto dest: pulse_count_failure_writes_nothing)
  ultimately show "t = None" and "lmt_get_pulse_count dev hw = Some (Inr (st, None, hw'))"
    by simp_all
qed

text \<open>
  Three runs on the example timer: a sensor that never pauses, a sensor that is
  absent, and a sensor that pauses and then sends 1762 pulses.
\<close>

lemma temperature_composition_example:
  "lmt_get_temperature (Some fake_dev) CONV_TYPE_LUT (fake_init [] 5) = None \<and>
   lmt_get_temperature (Some fake_dev) CONV_TYPE_LUT (fake_init [] 0) =
     Some (Inr (LMT_E_DEV_NOT_FOUND, None,
       \<lparr>cnt = 0, script = [], idle = 0,
        trace = [Stop, Set_cnt 0, Start, Delay 10, Stop, Get_cnt] @
                [Stop, Set_cnt 0, Start, Delay 104, Stop, Get_cnt]\<rparr>)) \<and>
   lmt_get_temperature (Some fake_dev) CONV_TYPE_LUT (fake_init [0, 1762] 0) =
     Some (Inr (LMT_OK, Some 60,
       \<lparr>cnt = 1762, script = [], idle = 0,
        trace = [Stop, Set_cnt 0, Start, Delay 10, Stop, Get_cnt] @
                [Stop, Set_cnt 0, Start, Delay 104, Stop, Get_cnt]\<rparr>))"
proof -
  note busy = temperature_composition [of "Some fake_dev" "fake_init [] 5" CONV_TYPE_LUT]
  note absent = temperature_composition [of "Some fake_dev" "fake_init [] 0" CONV_TYPE_LUT]
  note good = temperature_composition [of "Some fake_dev" "fake_init [0, 1762] 0" CONV_TYPE_LUT]
  have a: "lmt_get_temperature (Some fake_dev) CONV_TYPE_LUT (fake_init [] 5) = None"
    using busy fake_busy_run by blast
  have ne: "LMT_E_DEV_NOT_FOUND \<noteq> LMT_OK" by simp
  have b: "lmt_get_temperature (Some fake_dev) CONV_TYPE_LUT (fake_init [] 0) =
     Some (Inr (LMT_E_DEV_NOT_FOUND, None,
       \<lparr>cnt = 0, script = [], idle = 0,
        trace = [Stop, Set_cnt 0, Start, Delay 10, Stop, Get_cnt] @
                [Stop, Set_cnt 0, Start, Delay 104, Stop, Get_cnt]\<rparr>))"
    using absent fake_absent_run ne by blast
  have c: "lmt_get_temperature (Some fake_dev) CONV_TYPE_LUT (fake_init [0, 1762] 0) =
     Some (Inr (LMT_OK, Some 60,
       \<lparr>cnt = 1762, script = [], idle = 0,
        trace = [Stop, Set_cnt 0, Start, Delay 10, Stop, Get_cnt] @
                [Stop, Set_cnt 0, Start, Delay 104, Stop, Get_cnt]\<rparr>))"
    using good fake_good_run table_1762 by blast
  from a b c show ?thesis by (intro conjI)
qed

lemma fake_overrun_run:
  "lmt_get_pulse_count (Some fake_dev) (fake_init [0, 3219] 0) =
     Some (Inr (LMT_OK, Some 3219,
       \<lparr>cnt = 3219, script = [], idle = 0,
        trace = [Stop, Set_cnt 0, Start, Delay 10, Stop, Get_cnt] @
                [Stop, Set_cnt 0, Start, Delay 104, Stop, Get_cnt]\<rparr>))"
proof -
  have "wait_count fake_dev (fake_init [0, 3219] 0) 0 = 0"
    by (simp add: wait_count_def fake_probe fake_init_def)
  from fake_run [OF this] show ?thesis
    by (simp add: count_pulses_probe [OF fake_complete] fake_probe fake_init_def)
qed

text \<open>
  C8. The specification asks that \<open>lmt_get_temperature\<close> return any error of either
  stage unchanged and store no temperature on any failure. That holds for the first
  stage. The second stage is not checked: \<open>*temp = lmt_pulses_to_temperature(pulses,
  type); return LMT_OK;\<close>. When the timer idles in the 10 ms window and counts 3219
  pulses in the 104 ms window, \<open>lmt_get_pulse_count\<close> succeeds with 3219, the
  conversion by table reads \<open>lut[21][1]\<close> beyond the table, and \<open>lmt_get_temperature\<close>
  has no error to return and no defined result: what it stores is computed from that
  read.
\<close>

theorem temperature_after_table_overrun:
  "lmt_get_pulse_count (Some fake_dev) (fake_init [0, 3219] 0) =
     Some (Inr (LMT_OK, Some 3219,
       \<lparr>cnt = 3219, script = [], idle = 0,
        trace = [Stop, Set_cnt 0, Start, Delay 10, Stop, Get_cnt] @
                [Stop, Set_cnt 0, Start, Delay 104, Stop, Get_cnt]\<rparr>)) \<and>
   lmt_pulses_to_temperature 3219 CONV_TYPE_LUT = Inl Out_of_bounds_read \<and>
   lmt_get_temperature (Some fake_dev) CONV_TYPE_LUT (fake_init [0, 3219] 0) =
     Some (Inl Out_of_bounds_read)"
proof -
  have conv: "lmt_pulses_to_temperature 3219 CONV_TYPE_LUT = Inl Out_of_bounds_read"
    by (rule table_above) simp
  have "lmt_get_temperature (Some fake_dev) CONV_TYPE_LUT (fake_init [0, 3219] 0) =
          Some (Inl Out_of_bounds_read)"
    by (simp add: lmt_get_temperature_def fake_overrun_run conv)
  with fake_overrun_run conv show ?thesis by (intro conjI)
qed

end
